theory Spec2Isabelle
  imports Main "HOL-Library.Word" "HOL-Library.List_Lexorder" "HOL-Library.Sublist"
    "HOL-Library.Multiset"
begin

section \<open>Strings\<close>

text \<open>
  A JavaScript string is a sequence of UTF-16 code units: \<open>length\<close>, \<open>slice\<close>, \<open>===\<close> and the
  regular expressions of the source (none has the \<open>u\<close> flag) all work on code units.
  \<open>js\<close> turns a literal of the theory into such a string; the code unit 39 is the single
  quote, 34 the double quote, 10 the newline, 32 the space and 35 the hash sign.
\<close>

type_synonym code_unit = "16 word"
type_synonym jsstring = "code_unit list"

definition js :: "string \<Rightarrow> jsstring" where
  "js s = map of_char s"

definition nl :: jsstring where
  "nl = [10]"

text \<open>\<open>Array.prototype.join\<close> on an array of strings.\<close>

fun join :: "jsstring \<Rightarrow> jsstring list \<Rightarrow> jsstring" where
  "join sep [] = []"
| "join sep [x] = x"
| "join sep (x # y # ys) = x @ sep @ join sep (y # ys)"

text \<open>
  The character classes \<open>\w\<close> (\<open>[A-Za-z0-9_]\<close>) and \<open>\s\<close> (the WhiteSpace and LineTerminator
  code units of ECMAScript, which are also what \<open>trim\<close> strips).
\<close>

definition is_word :: "code_unit \<Rightarrow> bool" where
  "is_word c = (let n = unat c in
     (48 \<le> n \<and> n \<le> 57) \<or> (65 \<le> n \<and> n \<le> 90) \<or> n = 95 \<or> (97 \<le> n \<and> n \<le> 122))"

definition is_space :: "code_unit \<Rightarrow> bool" where
  "is_space c = (let n = unat c in
     (9 \<le> n \<and> n \<le> 13) \<or> n = 32 \<or> n = 0xA0 \<or> n = 0x1680 \<or> (0x2000 \<le> n \<and> n \<le> 0x200A) \<or>
     n = 0x2028 \<or> n = 0x2029 \<or> n = 0x202F \<or> n = 0x205F \<or> n = 0x3000 \<or> n = 0xFEFF)"

definition trim :: "jsstring \<Rightarrow> jsstring" where
  "trim s = rev (dropWhile is_space (rev (dropWhile is_space s)))"

text \<open>\<open>String.prototype.includes\<close>: the pattern occurs somewhere in the string.\<close>

fun startsWith :: "jsstring \<Rightarrow> jsstring \<Rightarrow> bool" where
  "startsWith s [] = True"
| "startsWith [] (p # ps) = False"
| "startsWith (c # cs) (p # ps) = (c = p \<and> startsWith cs ps)"

fun includes_str :: "jsstring \<Rightarrow> jsstring \<Rightarrow> bool" where
  "includes_str [] p = (p = [])"
| "includes_str (c # cs) p = (startsWith (c # cs) p \<or> includes_str cs p)"

text \<open>A non-negative integer inside a template literal: its decimal digits.\<close>

function decimal :: "nat \<Rightarrow> jsstring" where
  "decimal n = (if n < 10 then [of_nat (48 + n)] else decimal (n div 10) @ [of_nat (48 + n mod 10)])"
  by pat_completeness auto
termination
  by (relation "measure id") auto

declare decimal.simps [simp del]

section \<open>Regular expressions\<close>

text \<open>
  The regular expressions of the source use literals, character classes, sequence, the greedy
  quantifiers \<open>?\<close>, \<open>*\<close> and \<open>+\<close>, the lazy \<open>*?\<close> and a positive lookahead; none has a capture
  group, an anchor or a backreference. \<open>ends r s\<close> lists, in the order in which the backtracking
  matcher of ECMAScript tries them, the rests of \<open>s\<close> after each way of matching \<open>r\<close> at the
  start of \<open>s\<close>: the head of the list is the match the engine reports. An iteration of a
  quantifier that consumes nothing is rejected, as the engine does.
\<close>

datatype regex =
    Eps
  | Chr "code_unit \<Rightarrow> bool"
  | Seq regex regex
  | Opt regex
  | Star regex
  | LazyStar regex
  | Ahead regex

function (sequential) ends :: "regex \<Rightarrow> jsstring \<Rightarrow> jsstring list" where
  "ends Eps s = [s]"
| "ends (Chr p) [] = []"
| "ends (Chr p) (c # cs) = (if p c then [cs] else [])"
| "ends (Seq a b) s = concat (map (ends b) (ends a s))"
| "ends (Opt a) s = ends a s @ [s]"
| "ends (Star a) s =
     concat (map (\<lambda>t. if length t < length s then ends (Star a) t else []) (ends a s)) @ [s]"
| "ends (LazyStar a) s =
     s # concat (map (\<lambda>t. if length t < length s then ends (LazyStar a) t else []) (ends a s))"
| "ends (Ahead a) s = (if ends a s = [] then [] else [s])"
  by pat_completeness auto
termination
  by (relation "inv_image (less_than <*lex*> less_than) (\<lambda>(r, s). (size r, length s))") auto

declare ends.simps(6,7) [simp del]

definition Plus :: "regex \<Rightarrow> regex" where
  "Plus a = Seq a (Star a)"

fun lit :: "jsstring \<Rightarrow> regex" where
  "lit [] = Eps"
| "lit (c # cs) = Seq (Chr (\<lambda>x. x = c)) (lit cs)"

fun seqs :: "regex list \<Rightarrow> regex" where
  "seqs [] = Eps"
| "seqs (r # rs) = Seq r (seqs rs)"

definition anyChar :: regex where
  "anyChar = Chr (\<lambda>c. True)"

text \<open>
  \<open>search r s\<close> is \<open>RegExp.prototype.exec\<close> from index 0: the leftmost position at which \<open>r\<close>
  matches, as the text before the match, the match and the text after it.
\<close>

fun search :: "regex \<Rightarrow> jsstring \<Rightarrow> (jsstring \<times> jsstring \<times> jsstring) option" where
  "search r [] = (case ends r [] of [] \<Rightarrow> None | t # _ \<Rightarrow> Some ([], [], []))"
| "search r (c # cs) =
     (case ends r (c # cs) of
        t # _ \<Rightarrow> Some ([], take (length (c # cs) - length t) (c # cs), t)
      | [] \<Rightarrow> (case search r cs of None \<Rightarrow> None | Some (b, m, a) \<Rightarrow> Some (c # b, m, a)))"

lemma ends_suffix: "t \<in> set (ends r s) \<Longrightarrow> suffix t s"
proof (induction r s arbitrary: t rule: ends.induct)
  case (3 p c cs)
  then show ?case by (simp add: suffix_Cons split: if_splits)
next
  case (4 a b s)
  from "4.prems" obtain u where u: "u \<in> set (ends a s)" "t \<in> set (ends b u)"
    by auto
  from "4.IH"(1) [OF u(1)] "4.IH"(2) [OF u] show ?case
    by (rule suffix_order.trans [rotated])
next
  case (5 a s)
  then show ?case by auto
next
  case (6 a s)
  show ?case
  proof (cases "t = s")
    case False
    from "6.prems" have "t \<in> set (concat (map (\<lambda>t. if length t < length s
        then ends (Star a) t else []) (ends a s)) @ [s])"
      by (subst (asm) ends.simps(6))
    with False obtain u where u: "u \<in> set (ends a s)" "length u < length s"
        "t \<in> set (ends (Star a) u)"
      by (auto split: if_splits)
    from "6.IH"(1) [OF u(1)] "6.IH"(2) [OF u] show ?thesis
      by (rule suffix_order.trans [rotated])
  qed simp
next
  case (7 a s)
  show ?case
  proof (cases "t = s")
    case False
    from "7.prems" have "t \<in> set (s # concat (map (\<lambda>t. if length t < length s
        then ends (LazyStar a) t else []) (ends a s)))"
      by (subst (asm) ends.simps(7))
    with False obtain u where u: "u \<in> set (ends a s)" "length u < length s"
        "t \<in> set (ends (LazyStar a) u)"
      by (auto split: if_splits)
    from "7.IH"(1) [OF u(1)] "7.IH"(2) [OF u] show ?thesis
      by (rule suffix_order.trans [rotated])
  qed simp
next
  case (8 a s)
  then show ?case by (simp split: if_splits)
qed simp_all

lemma search_decomp: "search r s = Some (b, m, a) \<Longrightarrow> s = b @ m @ a"
proof (induction s arbitrary: b m a)
  case Nil
  then show ?case by (simp split: list.splits)
next
  case (Cons c cs)
  show ?case
  proof (cases "ends r (c # cs)")
    case Nil
    with Cons.prems obtain b' where "search r cs = Some (b', m, a)" "b = c # b'"
      by (auto split: option.splits)
    with Cons.IH show ?thesis by simp
  next
    case hit: (Cons t ts)
    then have "suffix t (c # cs)"
      by (intro ends_suffix [of t r]) simp
    then have "c # cs = take (length (c # cs) - length t) (c # cs) @ t"
      by (rule suffix_take)
    moreover from hit Cons.prems have "b = []" "m = take (length (c # cs) - length t) (c # cs)" "a = t"
      by auto
    ultimately show ?thesis by simp
  qed
qed

lemma search_length: "search r s = Some (b, m, a) \<Longrightarrow> m \<noteq> [] \<Longrightarrow> length a < length s"
  by (drule search_decomp) simp

lemma search_length_tl: "search r s = Some (b, m, c # cs) \<Longrightarrow> length cs < length s"
  by (drule search_decomp) simp

text \<open>
  \<open>String.prototype.replace\<close> with a regular expression without the \<open>g\<close> flag replaces the first
  match and returns the string as it is when there is none; with the \<open>g\<close> flag (\<open>replace_all\<close>)
  it replaces every match, resuming after each match, or one code unit later after an empty
  match. The replacement is a function of the matched text; the replacement strings of the
  source contain no \<open>$\<close>, so each stands for itself.
\<close>

definition replace :: "regex \<Rightarrow> (jsstring \<Rightarrow> jsstring) \<Rightarrow> jsstring \<Rightarrow> jsstring" where
  "replace r f s = (case search r s of None \<Rightarrow> s | Some (b, m, a) \<Rightarrow> b @ f m @ a)"

function replace_all :: "regex \<Rightarrow> (jsstring \<Rightarrow> jsstring) \<Rightarrow> jsstring \<Rightarrow> jsstring" where
  "replace_all r f s =
     (case search r s of
        None \<Rightarrow> s
      | Some (b, m, a) \<Rightarrow>
          if m \<noteq> [] then b @ f m @ replace_all r f a
          else (case a of [] \<Rightarrow> b @ f m | c # cs \<Rightarrow> b @ f m @ c # replace_all r f cs))"
  by pat_completeness auto
termination
proof (relation "measure (\<lambda>(r, f, s). length s)")
qed (auto dest: search_length search_length_tl)

declare replace_all.simps [simp del]

text \<open>
  \<open>String.prototype.split\<close> with a regular expression and no limit: \<open>acc\<close> is the piece being
  collected since the last separator, the third argument the text still to scan. A separator
  match that is empty at the start of a piece is skipped.
\<close>

function split_loop :: "regex \<Rightarrow> jsstring \<Rightarrow> jsstring \<Rightarrow> jsstring list" where
  "split_loop r acc [] = [acc]"
| "split_loop r acc (c # cs) =
     (case ends r (c # cs) of
        [] \<Rightarrow> split_loop r (acc @ [c]) cs
      | t # _ \<Rightarrow>
          if length t < length (c # cs) then acc # split_loop r [] t
          else if acc = [] then split_loop r (acc @ [c]) cs
          else acc # split_loop r [] (c # cs))"
  by pat_completeness auto
termination
  by (relation "measure (\<lambda>(r, acc, s). 2 * length s + (if acc = [] then 0 else 1))") auto

definition split :: "regex \<Rightarrow> jsstring \<Rightarrow> jsstring list" where
  "split r s = (if s = [] then (if ends r [] = [] then [Nil] else []) else split_loop r [] s)"

text \<open>
  \<open>Array.prototype.sort\<close> is stable and, for a consistent comparator, returns the one stable
  ordering of the array, which insertion computes; the order it gives for an inconsistent
  comparator is implementation-defined and not modelled.
\<close>

fun insert_by :: "('a \<Rightarrow> 'a \<Rightarrow> int) \<Rightarrow> 'a \<Rightarrow> 'a list \<Rightarrow> 'a list" where
  "insert_by cmp x [] = [x]"
| "insert_by cmp x (y # ys) = (if cmp x y \<le> 0 then x # y # ys else y # insert_by cmp x ys)"

definition sort_by :: "('a \<Rightarrow> 'a \<Rightarrow> int) \<Rightarrow> 'a list \<Rightarrow> 'a list" where
  "sort_by cmp xs = foldr (insert_by cmp) xs []"

text \<open>\<open>Array.prototype.findIndex\<close>: the index of the first element that satisfies, or -1.\<close>

fun findIndex :: "('a \<Rightarrow> bool) \<Rightarrow> 'a list \<Rightarrow> int" where
  "findIndex P [] = - 1"
| "findIndex P (x # xs) =
     (if P x then 0 else (let i = findIndex P xs in if i = - 1 then - 1 else i + 1))"

section \<open>JSON values and thrown errors\<close>

text \<open>
  A parsed JSON value, and an object literal of the source. An object is the list of its own
  properties in insertion order; a number is carried as it is and never computed with, and the
  only number the tools write is the integer 100.
\<close>

datatype json =
    JNull
  | JBool bool
  | JNum int
  | JStr jsstring
  | JArr "json list"
  | JObj "(jsstring \<times> json) list"

text \<open>
  Property read \<open>v[k]\<close> on a value that is not \<open>null\<close>: \<open>None\<close> is \<open>undefined\<close>. The tools read
  only the names \<open>value\<close>, \<open>title\<close>, \<open>id\<close>, \<open>status\<close>, \<open>importance\<close>, \<open>dueDateTime\<close> and \<open>_etag\<close>,
  which no prototype of a primitive or of an array supplies, so only objects answer.
  On \<open>null\<close> the read throws a TypeError; every caller below tests for \<open>JNull\<close> first.
\<close>

fun getProp :: "json \<Rightarrow> jsstring \<Rightarrow> json option" where
  "getProp (JObj kvs) k = map_of kvs k"
| "getProp _ k = None"

text \<open>Truthiness of a JSON value, as \<open>||\<close> tests it.\<close>

fun truthy :: "json \<Rightarrow> bool" where
  "truthy JNull = False"
| "truthy (JBool b) = b"
| "truthy (JNum n) = (n \<noteq> 0)"
| "truthy (JStr s) = (s \<noteq> [])"
| "truthy (JArr xs) = True"
| "truthy (JObj kvs) = True"

text \<open>A thrown error, by its \<open>message\<close>; \<open>typeError\<close> is the message V8 gives a read on
  \<open>null\<close> or \<open>undefined\<close>.\<close>

datatype error = Error (message: jsstring)

definition typeError :: "string \<Rightarrow> string \<Rightarrow> error" where
  "typeError v k =
     Error (js ''Cannot read properties of '' @ js v @ js '' (reading '' @ [39] @ js k @ [39] @ js '')'')"

section \<open>The interfaces of \<open>conversion-tools.ts\<close>\<close>

text \<open>
  Field names carry a prefix for their interface (\<open>pt_\<close> PlannerTask, \<open>ptd_\<close> PlannerTaskDetails,
  \<open>ci_\<close> a checklist entry, \<open>cr_\<close> ChecklistItemResult, \<open>tt_\<close> TodoTask, \<open>tl_\<close> TodoTaskList,
  \<open>ft_\<close> FoundTask), since several interfaces share \<open>id\<close> and \<open>title\<close>. An optional field \<open>f?\<close>
  is an \<open>option\<close>. \<open>priority\<close> and \<open>percentComplete\<close> are the integer codes of the Planner API.
\<close>

record PlannerTask =
  pt_id :: jsstring
  pt_title :: jsstring
  pt_planId :: jsstring
  pt_bucketId :: "jsstring option"
  pt_priority :: int
  pt_percentComplete :: int
  pt_dueDateTime :: "jsstring option"
  pt_createdDateTime :: jsstring
  pt_assignments :: "(jsstring \<times> json) list option"

record ChecklistItem =
  ci_title :: jsstring
  ci_isChecked :: bool
  ci_orderHint :: "jsstring option"

text \<open>
  \<open>checklist\<close> is a \<open>Record<string, item>\<close>: the list of its entries in the order in which
  \<open>Object.values\<close> iterates them.
\<close>

record PlannerTaskDetails =
  ptd_description :: "jsstring option"
  ptd_checklist :: "(jsstring \<times> ChecklistItem) list option"

record ChecklistItemResult =
  cr_displayName :: jsstring
  cr_isChecked :: bool
  cr_success :: bool

record TodoTask =
  tt_id :: jsstring
  tt_title :: jsstring
  tt_body :: "(jsstring \<times> jsstring) option"
  tt_importance :: jsstring
  tt_status :: jsstring
  tt_dueDateTime :: "(jsstring \<times> jsstring) option"

record TodoTaskList =
  tl_id :: jsstring
  tl_displayName :: jsstring
  tl_wellknownListName :: jsstring

record FoundTask =
  ft_task :: json
  ft_listId :: jsstring

section \<open>Field mapper\<close>

text \<open>
  \<open>buildTaskBody\<close>: \<open>details?.description\<close> is tested for truthiness, so a description that is
  \<open>undefined\<close> or the empty string adds nothing.
\<close>

definition metadataLines :: "PlannerTask \<Rightarrow> jsstring list" where
  "metadataLines task =
     [js ''--- Converted from Planner ---'',
      js ''Plan ID: '' @ pt_planId task,
      js ''Original Task ID: '' @ pt_id task,
      js ''Created: '' @ pt_createdDateTime task]"

definition descriptionLines :: "PlannerTaskDetails option \<Rightarrow> jsstring list" where
  "descriptionLines details =
     (case details of
        None \<Rightarrow> []
      | Some d \<Rightarrow>
          (case ptd_description d of
             None \<Rightarrow> []
           | Some t \<Rightarrow> if t \<noteq> [] then [t, []] else []))"

definition buildTaskBody :: "PlannerTask \<Rightarrow> PlannerTaskDetails option \<Rightarrow> jsstring" where
  "buildTaskBody task details = join nl (descriptionLines details @ metadataLines task)"

text \<open>
  \<open>mapPlannerToTodo\<close>. \<open>importanceMap[task.priority] || 'normal'\<close> looks the code up among the
  keys 1, 5 and 9; the three values are non-empty strings, so \<open>||\<close> falls back exactly when the
  code is not a key. The draft is the object literal, with \<open>dueDateTime\<close> added last when the
  source has a non-empty one.
\<close>

definition importanceMap :: "(int \<times> jsstring) list" where
  "importanceMap = [(1, js ''high''), (5, js ''normal''), (9, js ''low'')]"

definition mapPlannerToTodo :: "PlannerTask \<Rightarrow> PlannerTaskDetails option \<Rightarrow> bool \<Rightarrow> json" where
  "mapPlannerToTodo task details addPrefix =
     (let title = (if addPrefix then js ''[Planner] '' @ pt_title task else pt_title task);
          todoTask =
            [(js ''title'', JStr title),
             (js ''body'',
                JObj [(js ''content'', JStr (buildTaskBody task details)),
                      (js ''contentType'', JStr (js ''text''))]),
             (js ''importance'',
                JStr (case map_of importanceMap (pt_priority task) of
                        Some v \<Rightarrow> v
                      | None \<Rightarrow> js ''normal'')),
             (js ''status'',
                JStr (if pt_percentComplete task = 100 then js ''completed''
                      else js ''notStarted''))]
      in JObj (todoTask @
               (case pt_dueDateTime task of
                  None \<Rightarrow> []
                | Some d \<Rightarrow>
                    if d \<noteq> []
                    then [(js ''dueDateTime'',
                             JObj [(js ''dateTime'', JStr d), (js ''timeZone'', JStr (js ''UTC''))])]
                    else [])))"

section \<open>The graph client and the host\<close>

text \<open>
  The tools are registered with a \<open>GraphClient\<close>, imported from the module \<open>graph-client.js\<close>,
  and use three functions of the JavaScript host. These are the parameters of the model:
  \<^item> \<open>graphRequest\<close> takes the path and the options of a request and the state \<open>'w\<close> of the
    remote service, and either throws or returns the \<open>content\<close> array of the response, each
    element with its \<open>type\<close> and \<open>text\<close>;
  \<^item> \<open>JSON.parse\<close> at each type the source declares for its result (\<open>parsePlannerTask\<close> and so
    on; \<open>parseLists\<close> gives the \<open>value\<close> array of the lists response, \<open>parseJson\<close> a result
    the source leaves untyped);
  \<^item> \<open>String.prototype.localeCompare\<close>, whose order is the host's locale-sensitive collation;
  \<^item> \<open>encodeURIComponent\<close>, which throws on a lone surrogate.

  A request body is the value handed to \<open>JSON.stringify\<close>. A run carries the state of the
  service and the list of the requests issued so far. Calls to the logger have no effect on
  any result and are left out.
\<close>

record request =
  rq_path :: jsstring
  rq_method :: "jsstring option"
  rq_body :: "json option"
  rq_headers :: "(jsstring \<times> json) list"
  rq_includeHeaders :: bool

type_synonym response = "(jsstring \<times> jsstring) list"

record 'w env =
  graphRequest :: "request \<Rightarrow> 'w \<Rightarrow> (error + response) \<times> 'w"
  parsePlannerTask :: "jsstring \<Rightarrow> error + PlannerTask"
  parsePlannerTaskDetails :: "jsstring \<Rightarrow> error + PlannerTaskDetails option"
  parseLists :: "jsstring \<Rightarrow> error + TodoTaskList list option"
  parseTodoTask :: "jsstring \<Rightarrow> error + TodoTask"
  parseJson :: "jsstring \<Rightarrow> error + json"
  localeCompare :: "jsstring \<Rightarrow> jsstring \<Rightarrow> int"
  encodeURIComponent :: "jsstring \<Rightarrow> error + jsstring"

type_synonym 'w run = "'w \<times> request list"

definition GET :: "jsstring \<Rightarrow> request" where
  "GET p = \<lparr>rq_path = p, rq_method = None, rq_body = None, rq_headers = [],
             rq_includeHeaders = False\<rparr>"

definition POST :: "jsstring \<Rightarrow> json \<Rightarrow> request" where
  "POST p b = \<lparr>rq_path = p, rq_method = Some (js ''POST''), rq_body = Some b, rq_headers = [],
              rq_includeHeaders = False\<rparr>"

text \<open>\<open>await graphClient.graphRequest(...)\<close>: the request is recorded, the service moves on.\<close>

definition issue :: "'w env \<Rightarrow> request \<Rightarrow> 'w run \<Rightarrow> (error + response) \<times> 'w run" where
  "issue env rq s = (case graphRequest env rq (fst s) of (r, w) \<Rightarrow> (r, (w, snd s @ [rq])))"

text \<open>\<open>response.content[0].type === 'text' ? response.content[0].text : ''\<close>.\<close>

definition responseText :: "response \<Rightarrow> error + jsstring" where
  "responseText r =
     (case r of
        [] \<Rightarrow> Inl (typeError ''undefined'' ''type'')
      | (ty, text) # _ \<Rightarrow> Inr (if ty = js ''text'' then text else []))"

text \<open>A request, the text of its response and \<open>JSON.parse\<close> of that text; each may throw.\<close>

definition fetch ::
  "'w env \<Rightarrow> (jsstring \<Rightarrow> error + 'a) \<Rightarrow> request \<Rightarrow> 'w run \<Rightarrow> (error + 'a) \<times> 'w run" where
  "fetch env parse rq s =
     (case issue env rq s of
        (Inl e, s') \<Rightarrow> (Inl e, s')
      | (Inr r, s') \<Rightarrow>
          (case responseText r of
             Inl e \<Rightarrow> (Inl e, s')
           | Inr text \<Rightarrow> (parse text, s')))"

text \<open>
  What a tool returns: the value it serialises into the text of its one content element, and
  the \<open>isError\<close> flag.
\<close>

record tool_result =
  tr_payload :: json
  tr_isError :: bool

section \<open>The tool \<open>convert-planner-task-to-todo\<close>\<close>

text \<open>The parameters after the schema has filled in the defaults.\<close>

record convert_params =
  cp_plannerTaskId :: jsstring
  cp_todoTaskListId :: "jsstring option"
  cp_markPlannerComplete :: bool
  cp_addPlannerPrefix :: bool

text \<open>What steps 1 to 4 of the handler leave in its local variables.\<close>

record conversion =
  cv_plannerTask :: PlannerTask
  cv_taskDetails :: "PlannerTaskDetails option"
  cv_listId :: jsstring
  cv_createdTodoTask :: TodoTask

text \<open>Step 3 when no list id is given: the list whose well-known name is \<open>defaultList\<close>.\<close>

definition defaultListId :: "'w env \<Rightarrow> 'w run \<Rightarrow> (error + jsstring) \<times> 'w run" where
  "defaultListId env s =
     (case fetch env (parseLists env) (GET (js ''/me/todo/lists'')) s of
        (Inl e, s') \<Rightarrow> (Inl e, s')
      | (Inr v, s') \<Rightarrow>
          (case (case v of
                   None \<Rightarrow> None
                 | Some ls \<Rightarrow> find (\<lambda>l. tl_wellknownListName l = js ''defaultList'') ls) of
             None \<Rightarrow> (Inl (Error (js ''Could not find default Tasks list'')), s')
           | Some tasksList \<Rightarrow> (Inr (tl_id tasksList), s')))"

definition targetListId :: "'w env \<Rightarrow> convert_params \<Rightarrow> 'w run \<Rightarrow> (error + jsstring) \<times> 'w run" where
  "targetListId env params s =
     (case cp_todoTaskListId params of
        None \<Rightarrow> defaultListId env s
      | Some listId \<Rightarrow> if listId \<noteq> [] then (Inr listId, s) else defaultListId env s)"

text \<open>
  Steps 1 to 4: fetch the Planner task, fetch its details (a failure leaves them \<open>null\<close>),
  resolve the list, map the fields and create the To-Do task. An error of step 1, 3 or 4
  reaches the handler's outer \<open>catch\<close>.
\<close>

definition prepare :: "'w env \<Rightarrow> convert_params \<Rightarrow> 'w run \<Rightarrow> (error + conversion) \<times> 'w run" where
  "prepare env params s =
     (case fetch env (parsePlannerTask env) (GET (js ''/planner/tasks/'' @ cp_plannerTaskId params)) s of
        (Inl e, s1) \<Rightarrow> (Inl e, s1)
      | (Inr plannerTask, s1) \<Rightarrow>
          (case fetch env (parsePlannerTaskDetails env)
                  (GET (js ''/planner/tasks/'' @ cp_plannerTaskId params @ js ''/details'')) s1 of
             (detailsResponse, s2) \<Rightarrow>
               (let taskDetails = (case detailsResponse of Inl e \<Rightarrow> None | Inr d \<Rightarrow> d)
                in case targetListId env params s2 of
                     (Inl e, s3) \<Rightarrow> (Inl e, s3)
                   | (Inr listId, s3) \<Rightarrow>
                       (case fetch env (parseTodoTask env)
                               (POST (js ''/me/todo/lists/'' @ listId @ js ''/tasks'')
                                  (mapPlannerToTodo plannerTask taskDetails (cp_addPlannerPrefix params)))
                               s3 of
                          (Inl e, s4) \<Rightarrow> (Inl e, s4)
                        | (Inr createdTodoTask, s4) \<Rightarrow>
                            (Inr \<lparr>cv_plannerTask = plannerTask, cv_taskDetails = taskDetails,
                                  cv_listId = listId, cv_createdTodoTask = createdTodoTask\<rparr>, s4)))))"

text \<open>
  Step 5. \<open>a.orderHint || ''\<close>; the items of the checklist sorted with \<open>localeCompare\<close> on that
  hint; one request per item, whose failure is caught and recorded.
\<close>

definition orderOf :: "ChecklistItem \<Rightarrow> jsstring" where
  "orderOf a = (case ci_orderHint a of None \<Rightarrow> [] | Some h \<Rightarrow> h)"

definition sortedItems ::
  "(jsstring \<Rightarrow> jsstring \<Rightarrow> int) \<Rightarrow> (jsstring \<times> ChecklistItem) list \<Rightarrow> ChecklistItem list" where
  "sortedItems compare checklist =
     sort_by (\<lambda>a b. compare (orderOf a) (orderOf b)) (map snd checklist)"

definition checklistRequest :: "jsstring \<Rightarrow> jsstring \<Rightarrow> ChecklistItem \<Rightarrow> request" where
  "checklistRequest listId taskId item =
     POST (js ''/me/todo/lists/'' @ listId @ js ''/tasks/'' @ taskId @ js ''/checklistItems'')
       (JObj [(js ''displayName'', JStr (ci_title item)), (js ''isChecked'', JBool (ci_isChecked item))])"

fun createChecklistItems ::
  "'w env \<Rightarrow> jsstring \<Rightarrow> jsstring \<Rightarrow> ChecklistItem list \<Rightarrow> 'w run \<Rightarrow>
     ChecklistItemResult list \<times> 'w run" where
  "createChecklistItems env listId taskId [] s = ([], s)"
| "createChecklistItems env listId taskId (item # rest) s =
     (case issue env (checklistRequest listId taskId item) s of
        (r, s') \<Rightarrow>
          (case createChecklistItems env listId taskId rest s' of
             (checklistResults, s'') \<Rightarrow>
               (\<lparr>cr_displayName = ci_title item, cr_isChecked = ci_isChecked item,
                 cr_success = (case r of Inl e \<Rightarrow> False | Inr x \<Rightarrow> True)\<rparr> # checklistResults, s'')))"

text \<open>
  The entries of \<open>taskDetails?.checklist\<close>; without details or without a checklist the loop is
  not entered, which issues the same requests and gives the same results as an empty one.
\<close>

definition checklistOf :: "conversion \<Rightarrow> (jsstring \<times> ChecklistItem) list" where
  "checklistOf cv =
     (case cv_taskDetails cv of
        None \<Rightarrow> []
      | Some d \<Rightarrow> (case ptd_checklist d of None \<Rightarrow> [] | Some checklist \<Rightarrow> checklist))"

definition checklistStage :: "'w env \<Rightarrow> conversion \<Rightarrow> 'w run \<Rightarrow> ChecklistItemResult list \<times> 'w run" where
  "checklistStage env cv s =
     createChecklistItems env (cv_listId cv) (tt_id (cv_createdTodoTask cv))
       (sortedItems (localeCompare env) (checklistOf cv)) s"

text \<open>
  Step 6, inside its own \<open>try\<close>: fetch the Planner task again with \<open>includeHeaders\<close>, take
  \<open>taskData._etag || '*'\<close>, and PATCH \<open>percentComplete: 100\<close> under \<open>If-Match\<close>.
\<close>

definition refetchRequest :: "jsstring \<Rightarrow> request" where
  "refetchRequest plannerTaskId =
     \<lparr>rq_path = js ''/planner/tasks/'' @ plannerTaskId, rq_method = None, rq_body = None,
      rq_headers = [], rq_includeHeaders = True\<rparr>"

definition etagOf :: "json \<Rightarrow> json" where
  "etagOf taskData =
     (case getProp taskData (js ''_etag'') of
        None \<Rightarrow> JStr (js ''*'')
      | Some v \<Rightarrow> if truthy v then v else JStr (js ''*''))"

definition patchRequest :: "jsstring \<Rightarrow> json \<Rightarrow> request" where
  "patchRequest plannerTaskId etag =
     \<lparr>rq_path = js ''/planner/tasks/'' @ plannerTaskId, rq_method = Some (js ''PATCH''),
      rq_body = Some (JObj [(js ''percentComplete'', JNum 100)]),
      rq_headers = [(js ''If-Match'', etag)], rq_includeHeaders = False\<rparr>"

definition markComplete :: "'w env \<Rightarrow> jsstring \<Rightarrow> 'w run \<Rightarrow> jsstring \<times> 'w run" where
  "markComplete env plannerTaskId s =
     (case fetch env (parseJson env) (refetchRequest plannerTaskId) s of
        (Inl e, s1) \<Rightarrow> (js ''failed_to_complete'', s1)
      | (Inr taskData, s1) \<Rightarrow>
          if taskData = JNull then (js ''failed_to_complete'', s1)
          else (case issue env (patchRequest plannerTaskId (etagOf taskData)) s1 of
                  (Inl e, s2) \<Rightarrow> (js ''failed_to_complete'', s2)
                | (Inr r, s2) \<Rightarrow> (js ''completed'', s2)))"

definition dispositionStage :: "'w env \<Rightarrow> convert_params \<Rightarrow> 'w run \<Rightarrow> jsstring \<times> 'w run" where
  "dispositionStage env params s =
     (if cp_markPlannerComplete params then markComplete env (cp_plannerTaskId params) s
      else (js ''unchanged'', s))"

text \<open>The result object.\<close>

definition checklistSummary :: "ChecklistItemResult list \<Rightarrow> jsstring" where
  "checklistSummary checklistResults =
     (let checklistCreated = length (filter cr_success checklistResults);
          checklistTotal = length checklistResults
      in if checklistTotal > 0
         then decimal checklistCreated @ js ''/'' @ decimal checklistTotal @ js '' created''
         else js ''none'')"

definition conversionResult :: "conversion \<Rightarrow> ChecklistItemResult list \<Rightarrow> jsstring \<Rightarrow> json" where
  "conversionResult cv checklistResults plannerStatus =
     JObj [(js ''success'', JBool True),
           (js ''message'', JStr (js ''Converted Planner task to To-Do task'')),
           (js ''todoTask'',
              JObj [(js ''id'', JStr (tt_id (cv_createdTodoTask cv))),
                    (js ''title'', JStr (tt_title (cv_createdTodoTask cv))),
                    (js ''listId'', JStr (cv_listId cv)),
                    (js ''checklistItems'', JStr (checklistSummary checklistResults))]),
           (js ''plannerTask'',
              JObj [(js ''id'', JStr (pt_id (cv_plannerTask cv))),
                    (js ''title'', JStr (pt_title (cv_plannerTask cv))),
                    (js ''status'', JStr plannerStatus)])]"

definition complete :: "'w env \<Rightarrow> convert_params \<Rightarrow> conversion \<Rightarrow> 'w run \<Rightarrow> tool_result \<times> 'w run" where
  "complete env params cv s =
     (case checklistStage env cv s of
        (checklistResults, s5) \<Rightarrow>
          (case dispositionStage env params s5 of
             (plannerStatus, s6) \<Rightarrow>
               (\<lparr>tr_payload = conversionResult cv checklistResults plannerStatus,
                 tr_isError = False\<rparr>, s6)))"

definition convertPlannerTaskToTodo ::
  "'w env \<Rightarrow> convert_params \<Rightarrow> 'w run \<Rightarrow> tool_result \<times> 'w run" where
  "convertPlannerTaskToTodo env params s =
     (case prepare env params s of
        (Inl e, s') \<Rightarrow>
          (\<lparr>tr_payload = JObj [(js ''success'', JBool False),
                                (js ''error'', JStr (js ''Conversion failed: '' @ message e))],
            tr_isError = True\<rparr>, s')
      | (Inr cv, s') \<Rightarrow> complete env params cv s')"

section \<open>The tool \<open>find-todo-task\<close>\<close>

record find_params =
  fp_title :: jsstring
  fp_todoTaskListId :: "jsstring option"
  fp_includeCompleted :: bool

text \<open>The lists to search: the given one, or all lists ordered by the priority of their names.\<close>

definition priorityOrder :: "jsstring list" where
  "priorityOrder = [js ''ROI'', js ''Goal Phase'', js ''Ad-Hoc'', js ''Tasks'']"

definition listScore :: "TodoTaskList \<Rightarrow> int" where
  "listScore a = (let aIndex = findIndex (\<lambda>p. includes_str (tl_displayName a) p) priorityOrder
                  in if aIndex = - 1 then 999 else aIndex)"

definition prioritizedLists :: "'w env \<Rightarrow> 'w run \<Rightarrow> (error + jsstring list) \<times> 'w run" where
  "prioritizedLists env s =
     (case fetch env (parseLists env) (GET (js ''/me/todo/lists'')) s of
        (Inl e, s') \<Rightarrow> (Inl e, s')
      | (Inr None, s') \<Rightarrow> (Inl (typeError ''undefined'' ''sort''), s')
      | (Inr (Some sortedLists), s') \<Rightarrow>
          (Inr (map tl_id (sort_by (\<lambda>a b. listScore a - listScore b) sortedLists)), s'))"

definition listsToSearch :: "'w env \<Rightarrow> find_params \<Rightarrow> 'w run \<Rightarrow> (error + jsstring list) \<times> 'w run" where
  "listsToSearch env params s =
     (case fp_todoTaskListId params of
        None \<Rightarrow> prioritizedLists env s
      | Some l \<Rightarrow> if l \<noteq> [] then (Inr [l], s) else prioritizedLists env s)"

text \<open>
  The search keyword:
  \<open>title.replace(/#\w+/g, '').replace(/[^\w\s]/g, ' ').trim().split(/\s+/).find(word => word.length > 3)
   || title.slice(0, 20)\<close>. A word that \<open>find\<close> returns is longer than 3 and so truthy.
\<close>

definition hashtag_re :: regex where
  "hashtag_re = Seq (Chr (\<lambda>c. c = 35)) (Plus (Chr is_word))"

definition special_re :: regex where
  "special_re = Chr (\<lambda>c. \<not> (is_word c \<or> is_space c))"

definition spaces_re :: regex where
  "spaces_re = Plus (Chr is_space)"

definition searchKeyword :: "jsstring \<Rightarrow> jsstring" where
  "searchKeyword title =
     (case find (\<lambda>word. 3 < length word)
             (split spaces_re
                (trim (replace_all special_re (\<lambda>_. js '' '')
                         (replace_all hashtag_re (\<lambda>_. []) title)))) of
        Some word \<Rightarrow> word
      | None \<Rightarrow> take 20 title)"

text \<open>The filter sent to the service; single quotes of the keyword are doubled.\<close>

definition quote_re :: regex where
  "quote_re = Chr (\<lambda>c. c = 39)"

definition searchFilter :: "find_params \<Rightarrow> jsstring" where
  "searchFilter params =
     (let statusFilter =
            (if fp_includeCompleted params then []
             else js ''status ne '' @ [39] @ js ''completed'' @ [39] @ js '' and '')
      in statusFilter @ js ''contains(title, '' @ [39] @
         replace_all quote_re (\<lambda>_. [39, 39]) (searchKeyword (fp_title params)) @ [39] @ js '')'')"

text \<open>
  The search loop. Within the result set of one list every entry is recorded, and the scan
  stops at an entry whose \<open>title\<close> is the query title; reading the title of a \<open>null\<close> entry
  throws, which ends the work on that list.
\<close>

datatype scan = Exhausted | Exact FoundTask | Threw error

fun scanTasks ::
  "jsstring \<Rightarrow> jsstring \<Rightarrow> json list \<Rightarrow> FoundTask list \<Rightarrow> FoundTask list \<times> scan" where
  "scanTasks title listId [] allMatches = (allMatches, Exhausted)"
| "scanTasks title listId (task # rest) allMatches =
     (let foundTask = \<lparr>ft_task = task, ft_listId = listId\<rparr>;
          allMatches' = allMatches @ [foundTask]
      in if task = JNull then (allMatches', Threw (typeError ''null'' ''title''))
         else if getProp task (js ''title'') = Some (JStr title) then (allMatches', Exact foundTask)
         else scanTasks title listId rest allMatches')"

definition tasksRequest :: "jsstring \<Rightarrow> jsstring \<Rightarrow> request" where
  "tasksRequest listId q = GET (js ''/me/todo/lists/'' @ listId @ js ''/tasks?$filter='' @ q)"

text \<open>
  One iteration: the body of the \<open>try\<close>, whose \<open>catch\<close> moves on to the next list. It yields the
  matches so far, the exact match if this list gave one, and the run.
\<close>

definition searchList ::
  "'w env \<Rightarrow> jsstring \<Rightarrow> jsstring \<Rightarrow> jsstring \<Rightarrow> FoundTask list \<Rightarrow> 'w run \<Rightarrow>
     FoundTask list \<times> FoundTask option \<times> 'w run" where
  "searchList env title filter_s listId allMatches s =
     (case encodeURIComponent env filter_s of
        Inl e \<Rightarrow> (allMatches, None, s)
      | Inr q \<Rightarrow>
          (case fetch env (parseJson env) (tasksRequest listId q) s of
             (Inl e, s') \<Rightarrow> (allMatches, None, s')
           | (Inr data, s') \<Rightarrow>
               if data = JNull then (allMatches, None, s')
               else (case getProp data (js ''value'') of
                       Some (JArr tasks) \<Rightarrow>
                         (case scanTasks title listId tasks allMatches of
                            (allMatches', Exact m) \<Rightarrow> (allMatches', Some m, s')
                          | (allMatches', _) \<Rightarrow> (allMatches', None, s'))
                     | _ \<Rightarrow> (allMatches, None, s'))))"

fun searchLists ::
  "'w env \<Rightarrow> jsstring \<Rightarrow> jsstring \<Rightarrow> jsstring list \<Rightarrow> FoundTask list \<Rightarrow> 'w run \<Rightarrow>
     FoundTask list \<times> FoundTask option \<times> 'w run" where
  "searchLists env title filter_s [] allMatches s = (allMatches, None, s)"
| "searchLists env title filter_s (listId # rest) allMatches s =
     (case searchList env title filter_s listId allMatches s of
        (allMatches', Some m, s') \<Rightarrow> (allMatches', Some m, s')
      | (allMatches', None, s') \<Rightarrow> searchLists env title filter_s rest allMatches' s')"

text \<open>The lightweight projection of a partial match.\<close>

definition lightweightFields :: "jsstring list" where
  "lightweightFields = [js ''id'', js ''title'', js ''status'', js ''importance'', js ''dueDateTime'']"

definition lightweight :: "FoundTask \<Rightarrow> json" where
  "lightweight m =
     JObj ((js ''listId'', JStr (ft_listId m)) #
           concat (map (\<lambda>field. case getProp (ft_task m) field of
                                   None \<Rightarrow> []
                                 | Some v \<Rightarrow> [(field, v)]) lightweightFields))"

text \<open>
  The handler. Projecting a \<open>null\<close> entry throws, which reaches the outer \<open>catch\<close>.
\<close>

definition findTodoTask :: "'w env \<Rightarrow> find_params \<Rightarrow> 'w run \<Rightarrow> tool_result \<times> 'w run" where
  "findTodoTask env params s =
     (case listsToSearch env params s of
        (Inl e, s1) \<Rightarrow>
          (\<lparr>tr_payload = JObj [(js ''success'', JBool False),
                                (js ''error'', JStr (js ''Find failed: '' @ message e))],
            tr_isError = True\<rparr>, s1)
      | (Inr listIds, s1) \<Rightarrow>
          (case searchLists env (fp_title params) (searchFilter params) listIds [] s1 of
             (allMatches, Some exactMatch, s2) \<Rightarrow>
               (\<lparr>tr_payload = JObj [(js ''success'', JBool True),
                                     (js ''matchType'', JStr (js ''exact'')),
                                     (js ''task'', ft_task exactMatch),
                                     (js ''listId'', JStr (ft_listId exactMatch))],
                 tr_isError = False\<rparr>, s2)
           | (allMatches, None, s2) \<Rightarrow>
               if allMatches \<noteq> [] then
                 (if JNull \<in> set (map ft_task allMatches) then
                    (\<lparr>tr_payload = JObj [(js ''success'', JBool False),
                                          (js ''error'', JStr (js ''Find failed: '' @
                                             message (typeError ''null'' ''id'')))],
                      tr_isError = True\<rparr>, s2)
                  else
                    (\<lparr>tr_payload = JObj [(js ''success'', JBool True),
                                          (js ''matchType'', JStr (js ''partial'')),
                                          (js ''message'', JStr (js ''No exact match for '' @ [34] @
                                             fp_title params @ [34] @ js ''. Found '' @
                                             decimal (length allMatches) @ js '' partial match(es):'')),
                                          (js ''matches'', JArr (map lightweight allMatches))],
                      tr_isError = False\<rparr>, s2))
               else
                 (\<lparr>tr_payload = JObj [(js ''success'', JBool False),
                                       (js ''matchType'', JStr (js ''none'')),
                                       (js ''message'', JStr (js ''No tasks found matching '' @ [34] @
                                          fp_title params @ [34])),
                                       (js ''searchKeyword'', JStr (searchKeyword (fp_title params)))],
                   tr_isError = False\<rparr>, s2)))"

section \<open>The client generator\<close>

text \<open>
  The four substitutions \<open>generateMcpTools\<close> applies to the generated client:
  \<^item> \<open>/'@zodios\/core';/\<close> becomes \<open>'./hack.js';\<close>;
  \<^item> in the first match of
    \<open>/const microsoft_graph_attachment = z\s+\.object\({[\s\S]*?}\)\s+\.strict\(\);/\<close> the first
    \<open>.strict();\<close> becomes \<open>.passthrough();\<close>, and the same for
    \<open>microsoft_graph_plannerAssignments\<close>;
  \<^item> every match of the global pattern for an errors array is removed: an optional comma,
    optional whitespace, \<open>errors:\<close>, optional whitespace, an opening bracket, any text as
    short as possible, a closing bracket and an optional comma, where optional whitespace and
    a closing brace follow.
\<close>

definition import_re :: regex where
  "import_re = lit ([39] @ js ''@zodios/core'' @ [39] @ js '';'')"

definition schema_re :: "jsstring \<Rightarrow> regex" where
  "schema_re name =
     seqs [lit (js ''const '' @ name @ js '' = z''), Plus (Chr is_space), lit (js ''.object({''),
           LazyStar anyChar, lit (js ''})''), Plus (Chr is_space), lit (js ''.strict();'')]"

definition strict_re :: regex where
  "strict_re = lit (js ''.strict();'')"

definition errors_re :: regex where
  "errors_re =
     seqs [Opt (lit (js '','')), Star (Chr is_space), lit (js ''errors:''), Star (Chr is_space),
           lit (js ''[''), LazyStar anyChar, lit (js '']''), Opt (lit (js '','')),
           Ahead (seqs [Star (Chr is_space), lit (js ''}'')])]"

definition redirectImport :: "jsstring \<Rightarrow> jsstring" where
  "redirectImport clientCode =
     replace import_re (\<lambda>_. [39] @ js ''./hack.js'' @ [39] @ js '';'') clientCode"

definition relaxSchema :: "jsstring \<Rightarrow> jsstring \<Rightarrow> jsstring" where
  "relaxSchema name clientCode =
     replace (schema_re name)
       (\<lambda>match. replace strict_re (\<lambda>_. js ''.passthrough();'') match) clientCode"

definition stripErrors :: "jsstring \<Rightarrow> jsstring" where
  "stripErrors clientCode = replace_all errors_re (\<lambda>_. []) clientCode"

definition postProcess :: "jsstring \<Rightarrow> jsstring" where
  "postProcess clientCode =
     stripErrors
       (relaxSchema (js ''microsoft_graph_plannerAssignments'')
          (relaxSchema (js ''microsoft_graph_attachment'')
             (redirectImport clientCode)))"

text \<open>
  \<open>generateMcpTools\<close> itself, over the file system \<open>'fs\<close> and the functions of \<open>fs\<close>, \<open>path\<close> and
  \<open>child_process\<close> it calls, which are parameters. Any error is rethrown with a prefix.
\<close>

record 'fs node =
  existsSync :: "jsstring \<Rightarrow> 'fs \<Rightarrow> bool"
  mkdirSync :: "jsstring \<Rightarrow> 'fs \<Rightarrow> (error + unit) \<times> 'fs"
  execSync :: "jsstring \<Rightarrow> 'fs \<Rightarrow> (error + unit) \<times> 'fs"
  readFileSync :: "jsstring \<Rightarrow> 'fs \<Rightarrow> error + jsstring"
  writeFileSync :: "jsstring \<Rightarrow> jsstring \<Rightarrow> 'fs \<Rightarrow> (error + unit) \<times> 'fs"
  path_resolve :: "jsstring \<Rightarrow> jsstring \<Rightarrow> jsstring"
  path_join :: "jsstring \<Rightarrow> jsstring \<Rightarrow> jsstring"

definition rethrow :: "error \<Rightarrow> error" where
  "rethrow e = Error (js ''Error generating client code: '' @ message e)"

definition ensureDir :: "'fs node \<Rightarrow> jsstring \<Rightarrow> 'fs \<Rightarrow> (error + unit) \<times> 'fs" where
  "ensureDir node outputDir fs =
     (if \<not> existsSync node outputDir fs then mkdirSync node outputDir fs else (Inr (), fs))"

definition clientFilePath :: "'fs node \<Rightarrow> jsstring \<Rightarrow> jsstring" where
  "clientFilePath node outputDir = path_join node outputDir (js ''client.ts'')"

definition generatorCommand :: "'fs node \<Rightarrow> jsstring \<Rightarrow> jsstring" where
  "generatorCommand node outputDir =
     (let rootDir = path_resolve node outputDir (js ''../..'');
          openapiDir = path_join node rootDir (js ''openapi'');
          openapiTrimmedFile = path_join node openapiDir (js ''openapi-trimmed.yaml'')
      in js ''npx -y openapi-zod-client '' @ [34] @ openapiTrimmedFile @ [34] @ js '' -o '' @ [34] @
         clientFilePath node outputDir @ [34] @
         js '' --with-description --strict-objects --additional-props-default-value=false'')"

definition generateMcpTools :: "'fs node \<Rightarrow> 'a \<Rightarrow> jsstring \<Rightarrow> 'fs \<Rightarrow> (error + bool) \<times> 'fs" where
  "generateMcpTools node openApiSpec outputDir fs =
     (case ensureDir node outputDir fs of
        (Inl e, fs0) \<Rightarrow> (Inl (rethrow e), fs0)
      | (Inr u, fs0) \<Rightarrow>
          (case execSync node (generatorCommand node outputDir) fs0 of
             (Inl e, fs1) \<Rightarrow> (Inl (rethrow e), fs1)
           | (Inr u, fs1) \<Rightarrow>
               (case readFileSync node (clientFilePath node outputDir) fs1 of
                  Inl e \<Rightarrow> (Inl (rethrow e), fs1)
                | Inr clientCode \<Rightarrow>
                    (case writeFileSync node (clientFilePath node outputDir) (postProcess clientCode) fs1 of
                       (Inl e, fs2) \<Rightarrow> (Inl (rethrow e), fs2)
                     | (Inr u, fs2) \<Rightarrow> (Inr True, fs2)))))"

section \<open>Notions used to state the properties\<close>

text \<open>
  The keyword extraction in the words of the specification: strip the hash-tag tokens (a hash
  sign and the word characters that follow it, at least one), put a space for every character
  that is not a word character, split on whitespace, take the first token longer than 3
  characters, and fall back to the first 20 characters of the title.
\<close>

function strip_hashtags :: "jsstring \<Rightarrow> jsstring" where
  "strip_hashtags [] = []"
| "strip_hashtags (c # cs) =
     (if c = 35 \<and> (case cs of [] \<Rightarrow> False | d # _ \<Rightarrow> is_word d)
      then strip_hashtags (dropWhile is_word cs)
      else c # strip_hashtags cs)"
  by pat_completeness auto
termination
  by (relation "measure length") (auto intro: le_imp_less_Suc length_dropWhile_le)

definition blank_nonword :: "jsstring \<Rightarrow> jsstring" where
  "blank_nonword s = map (\<lambda>c. if is_word c then c else 32) s"

function words_of :: "jsstring \<Rightarrow> jsstring list" where
  "words_of [] = []"
| "words_of (c # cs) =
     (if is_space c then words_of cs
      else takeWhile (\<lambda>x. \<not> is_space x) (c # cs) # words_of (dropWhile (\<lambda>x. \<not> is_space x) cs))"
  by pat_completeness auto
termination
  by (relation "measure length") (auto intro: le_imp_less_Suc length_dropWhile_le)

definition keyword_spec :: "jsstring \<Rightarrow> jsstring" where
  "keyword_spec title =
     (case find (\<lambda>w. 3 < length w) (words_of (blank_nonword (strip_hashtags title))) of
        Some w \<Rightarrow> w
      | None \<Rightarrow> take 20 title)"

text \<open>
  A consistent comparator, as \<open>Array.prototype.sort\<close> requires and as ECMAScript requires
  \<open>localeCompare\<close> to be: the sign is antisymmetric and the order transitive.
\<close>

definition consistent :: "('a \<Rightarrow> 'a \<Rightarrow> int) \<Rightarrow> bool" where
  "consistent cmp \<longleftrightarrow>
     (\<forall>a b. (cmp a b < 0) = (0 < cmp b a)) \<and>
     (\<forall>a b c. cmp a b \<le> 0 \<longrightarrow> cmp b c \<le> 0 \<longrightarrow> cmp a c \<le> 0)"

text \<open>
  Two comparators a host may supply: the comparison of code units, and a collation of two
  levels. The collation first compares the strings without regard to the case of ASCII letters;
  strings that this leaves equal are ordered by their first difference, the lowercase letter
  first. On strings of ASCII letters this is the order of the default collation of ICU, which
  is the \<open>localeCompare\<close> of Node: \<open>ab\<close> comes before \<open>Ab\<close>, and \<open>Ab\<close> before \<open>ac\<close>.
\<close>

definition ordinalCompare :: "jsstring \<Rightarrow> jsstring \<Rightarrow> int" where
  "ordinalCompare a b = (if a < b then - 1 else if b < a then 1 else 0)"

definition lowerCase :: "code_unit \<Rightarrow> code_unit" where
  "lowerCase c = (if 65 \<le> unat c \<and> unat c \<le> 90 then c + 32 else c)"

definition collate :: "jsstring \<Rightarrow> jsstring \<Rightarrow> int" where
  "collate a b =
     (if map lowerCase a = map lowerCase b then ordinalCompare b a
      else ordinalCompare (map lowerCase a) (map lowerCase b))"

text \<open>
  Issuing a list of requests one after the other, whatever each one returns: the outcome of
  every attempt and the run after the last.
\<close>

fun issueAll :: "'w env \<Rightarrow> request list \<Rightarrow> 'w run \<Rightarrow> (error + response) list \<times> 'w run" where
  "issueAll env [] s = ([], s)"
| "issueAll env (rq # rqs) s =
     (case issue env rq s of
        (r, s') \<Rightarrow> (case issueAll env rqs s' of (rs, s'') \<Rightarrow> (r # rs, s'')))"

text \<open>
  What the marking step does after the refetch request, from the run \<open>s5\<close> in which it starts:
  the requests that follow the refetch and the disposition recorded. A refetch that fails, or
  that returns \<open>null\<close>, ends the step; otherwise the conditional update is the one further
  request, and the disposition is \<open>completed\<close> exactly when that request succeeds.
\<close>

definition markOutcome :: "'w env \<Rightarrow> jsstring \<Rightarrow> 'w run \<Rightarrow> jsstring \<Rightarrow> request list \<Rightarrow> bool" where
  "markOutcome env i s5 status further \<longleftrightarrow>
     (case fetch env (parseJson env) (refetchRequest i) s5 of
        (Inl e, s6) \<Rightarrow> further = [] \<and> status = js ''failed_to_complete''
      | (Inr taskData, s6) \<Rightarrow>
          if taskData = JNull then further = [] \<and> status = js ''failed_to_complete''
          else further = [patchRequest i (etagOf taskData)]
               \<and> (case issue env (patchRequest i (etagOf taskData)) s6 of
                    (Inl e, s7) \<Rightarrow> status = js ''failed_to_complete''
                  | (Inr x, s7) \<Rightarrow> status = js ''completed''))"

section \<open>Concrete inputs\<close>

text \<open>
  A conversion: a task of priority 1 that is complete, with a description and three checklist
  items whose order hints are \<open>ac\<close>, \<open>Ab\<close> and \<open>ab\<close>; the service counts the requests it has
  served, fails those whose number is in \<open>failing\<close> and answers the others in turn with the
  task, its details, the created To-Do task and the task with its concurrency token.
\<close>

definition task0 :: PlannerTask where
  "task0 = \<lparr>pt_id = js ''t1'', pt_title = js ''Order parts'', pt_planId = js ''p1'',
            pt_bucketId = None, pt_priority = 1, pt_percentComplete = 100,
            pt_dueDateTime = None, pt_createdDateTime = js ''2026-02-07T10:00:00Z'',
            pt_assignments = None\<rparr>"

definition mark :: ChecklistItem where
  "mark = \<lparr>ci_title = js ''Mark'', ci_isChecked = True, ci_orderHint = Some (js ''ac'')\<rparr>"

definition drill :: ChecklistItem where
  "drill = \<lparr>ci_title = js ''Drill'', ci_isChecked = True, ci_orderHint = Some (js ''Ab'')\<rparr>"

definition tap :: ChecklistItem where
  "tap = \<lparr>ci_title = js ''Tap'', ci_isChecked = False, ci_orderHint = Some (js ''ab'')\<rparr>"

definition details0 :: PlannerTaskDetails where
  "details0 = \<lparr>ptd_description = Some (js ''Tap M6''),
               ptd_checklist = Some [(js ''c1'', mark), (js ''c2'', drill), (js ''c3'', tap)]\<rparr>"

definition todo0 :: TodoTask where
  "todo0 = \<lparr>tt_id = js ''T1'', tt_title = js ''[Planner] Order parts'', tt_body = None,
            tt_importance = js ''high'', tt_status = js ''completed'', tt_dueDateTime = None\<rparr>"

definition params0 :: convert_params where
  "params0 = \<lparr>cp_plannerTaskId = js ''t1'', cp_todoTaskListId = Some (js ''L''),
              cp_markPlannerComplete = True, cp_addPlannerPrefix = True\<rparr>"

definition env0 :: "(jsstring \<Rightarrow> jsstring \<Rightarrow> int) \<Rightarrow> int list \<Rightarrow> int env" where
  "env0 compare failing =
     \<lparr>graphRequest = (\<lambda>rq w.
          (if w \<in> set failing then Inl (Error (js ''503''))
           else Inr [(js ''text'',
                      if w = 0 then js ''task'' else if w = 1 then js ''details''
                      else if w = 2 then js ''created'' else js ''etag'')], w + 1)),
      parsePlannerTask = (\<lambda>t. if t = js ''task'' then Inr task0 else Inl (Error (js ''SyntaxError''))),
      parsePlannerTaskDetails =
        (\<lambda>t. if t = js ''details'' then Inr (Some details0) else Inl (Error (js ''SyntaxError''))),
      parseLists = (\<lambda>t. Inl (Error (js ''SyntaxError''))),
      parseTodoTask = (\<lambda>t. if t = js ''created'' then Inr todo0 else Inl (Error (js ''SyntaxError''))),
      parseJson =
        (\<lambda>t. if t = js ''etag'' then Inr (JObj [(js ''_etag'', JStr (js ''W/1''))])
             else Inl (Error (js ''SyntaxError''))),
      localeCompare = compare,
      encodeURIComponent = (\<lambda>t. Inr t)\<rparr>"

definition cv0 :: conversion where
  "cv0 = \<lparr>cv_plannerTask = task0, cv_taskDetails = Some details0, cv_listId = js ''L'',
          cv_createdTodoTask = todo0\<rparr>"

definition log3 :: "request list" where
  "log3 = [GET (js ''/planner/tasks/'' @ js ''t1''),
           GET (js ''/planner/tasks/'' @ js ''t1'' @ js ''/details''),
           POST (js ''/me/todo/lists/'' @ js ''L'' @ js ''/tasks'')
             (mapPlannerToTodo task0 (Some details0) True)]"

definition log6 :: "request list" where
  "log6 = log3 @ [checklistRequest (js ''L'') (js ''T1'') drill,
                  checklistRequest (js ''L'') (js ''T1'') tap,
                  checklistRequest (js ''L'') (js ''T1'') mark]"

definition results0 :: "int list \<Rightarrow> ChecklistItemResult list" where
  "results0 failing =
     [\<lparr>cr_displayName = js ''Drill'', cr_isChecked = True, cr_success = (3 \<notin> set failing)\<rparr>,
      \<lparr>cr_displayName = js ''Tap'', cr_isChecked = False, cr_success = (4 \<notin> set failing)\<rparr>,
      \<lparr>cr_displayName = js ''Mark'', cr_isChecked = True, cr_success = (5 \<notin> set failing)\<rparr>]"

text \<open>
  A search for the title \<open>Tapped Hole\<close> with no list given. The service holds three lists, which
  it reports with the least important first, and answers the three queries that follow with the
  result sets \<open>first\<close>, \<open>second\<close> and \<open>third\<close>. Of the tasks, \<open>wanted\<close> has the title asked for;
  \<open>older\<close> defines four of the five fields of the lightweight projection and one field more,
  \<open>later\<close> defines a title and a due date only.
\<close>

definition older :: json where
  "older = JObj [(js ''id'', JStr (js ''5'')), (js ''title'', JStr (js ''Tapped Hole (old)'')),
                 (js ''status'', JStr (js ''notStarted'')), (js ''importance'', JStr (js ''high'')),
                 (js ''createdDateTime'', JStr (js ''2026-02-07T10:00:00Z''))]"

definition later :: json where
  "later = JObj [(js ''title'', JStr (js ''Tapped Hole 2'')),
                 (js ''dueDateTime'', JObj [(js ''dateTime'', JStr (js ''2026-03-01T00:00:00'')),
                                            (js ''timeZone'', JStr (js ''UTC''))])]"

definition wanted :: json where
  "wanted = JObj [(js ''id'', JStr (js ''7'')), (js ''title'', JStr (js ''Tapped Hole'')),
                  (js ''status'', JStr (js ''notStarted''))]"

definition lists1 :: "TodoTaskList list" where
  "lists1 = [\<lparr>tl_id = js ''C'', tl_displayName = js ''Inbox'', tl_wellknownListName = js ''none''\<rparr>,
             \<lparr>tl_id = js ''B'', tl_displayName = js ''Goal Phase Tasks'',
              tl_wellknownListName = js ''none''\<rparr>,
             \<lparr>tl_id = js ''A'', tl_displayName = js ''ROI Tasks'', tl_wellknownListName = js ''none''\<rparr>]"

definition env1 :: "json list \<Rightarrow> json list \<Rightarrow> json list \<Rightarrow> int env" where
  "env1 first second third =
     \<lparr>graphRequest = (\<lambda>rq w.
          (Inr [(js ''text'',
                 if w = 0 then js ''lists'' else if w = 1 then js ''first''
                 else if w = 2 then js ''second'' else js ''third'')], w + 1)),
      parsePlannerTask = (\<lambda>t. Inl (Error (js ''SyntaxError''))),
      parsePlannerTaskDetails = (\<lambda>t. Inl (Error (js ''SyntaxError''))),
      parseLists = (\<lambda>t. if t = js ''lists'' then Inr (Some lists1) else Inl (Error (js ''SyntaxError''))),
      parseTodoTask = (\<lambda>t. Inl (Error (js ''SyntaxError''))),
      parseJson =
        (\<lambda>t. if t = js ''first'' then Inr (JObj [(js ''value'', JArr first)])
             else if t = js ''second'' then Inr (JObj [(js ''value'', JArr second)])
             else Inr (JObj [(js ''value'', JArr third)])),
      localeCompare = ordinalCompare,
      encodeURIComponent = (\<lambda>t. Inr t)\<rparr>"

definition params1 :: find_params where
  "params1 = \<lparr>fp_title = js ''Tapped Hole'', fp_todoTaskListId = None,
              fp_includeCompleted = False\<rparr>"

text \<open>
  A generated client in which none of the generator's patterns matches, and a file system that
  holds one file, which every read returns and every write replaces.
\<close>

definition plainClient :: jsstring where
  "plainClient = js ''export const api = 1;''"

definition node0 :: "jsstring node" where
  "node0 =
     \<lparr>existsSync = (\<lambda>p fs. True),
      mkdirSync = (\<lambda>p fs. (Inr (), fs)),
      execSync = (\<lambda>c fs. (Inr (), fs)),
      readFileSync = (\<lambda>p fs. Inr fs),
      writeFileSync = (\<lambda>p t fs. (Inr (), t)),
      path_resolve = (\<lambda>a b. a @ js ''/'' @ b),
      path_join = (\<lambda>a b. a @ js ''/'' @ b)\<rparr>"

section \<open>Properties of the field mapper\<close>

lemma prop_importance:
  "getProp (mapPlannerToTodo task details addPrefix) (js ''importance'') =
     Some (JStr (case map_of importanceMap (pt_priority task) of
                   Some v \<Rightarrow> v | None \<Rightarrow> js ''normal''))"
proof -
  have "js ''importance'' \<noteq> js ''title''" "js ''importance'' \<noteq> js ''body''"
    by (simp_all add: js_def)
  then show ?thesis
    by (simp add: mapPlannerToTodo_def Let_def)
qed

lemma prop_status:
  "getProp (mapPlannerToTodo task details addPrefix) (js ''status'') =
     Some (JStr (if pt_percentComplete task = 100 then js ''completed'' else js ''notStarted''))"
proof -
  have "js ''status'' \<noteq> js ''title''" "js ''status'' \<noteq> js ''body''"
    "js ''status'' \<noteq> js ''importance''"
    by (simp_all add: js_def)
  then show ?thesis
    by (simp add: mapPlannerToTodo_def Let_def)
qed

text \<open>
  C5. The importance of the draft is \<open>high\<close> for priority code 1, \<open>normal\<close> for 5, \<open>low\<close> for 9 and
  \<open>normal\<close> for every other integer code; the mapper is a total function that returns the draft
  in each case, so no code raises an error.
\<close>

theorem C5_importance_total:
  "getProp (mapPlannerToTodo task details addPrefix) (js ''importance'') =
     Some (JStr (if pt_priority task = 1 then js ''high''
                 else if pt_priority task = 5 then js ''normal''
                 else if pt_priority task = 9 then js ''low''
                 else js ''normal''))"
  by (simp add: prop_importance importanceMap_def)

text \<open>C5 at the priority codes 1, 9 and 3.\<close>

theorem C5_importance_total_witness:
  "getProp (mapPlannerToTodo task0 None True) (js ''importance'') = Some (JStr (js ''high''))
   \<and> getProp (mapPlannerToTodo (task0\<lparr>pt_priority := 9\<rparr>) None True) (js ''importance'')
       = Some (JStr (js ''low''))
   \<and> getProp (mapPlannerToTodo (task0\<lparr>pt_priority := 3\<rparr>) None True) (js ''importance'')
       = Some (JStr (js ''normal''))"
  using C5_importance_total [of task0 None True]
    C5_importance_total [of "task0\<lparr>pt_priority := 9\<rparr>" None True]
    C5_importance_total [of "task0\<lparr>pt_priority := 3\<rparr>" None True]
  by (simp add: task0_def)

text \<open>
  C6. The status of the draft is \<open>completed\<close> if and only if the completion percentage equals
  100, and \<open>notStarted\<close> otherwise.
\<close>

theorem C6_status_iff:
  "(getProp (mapPlannerToTodo task details addPrefix) (js ''status'') = Some (JStr (js ''completed''))
      \<longleftrightarrow> pt_percentComplete task = 100)
   \<and> (getProp (mapPlannerToTodo task details addPrefix) (js ''status'') = Some (JStr (js ''notStarted''))
      \<longleftrightarrow> pt_percentComplete task \<noteq> 100)"
proof -
  have "js ''completed'' \<noteq> js ''notStarted''"
    by (simp add: js_def)
  then show ?thesis
    unfolding prop_status by auto
qed

text \<open>C6 at the percentages 100 and 99.\<close>

theorem C6_status_iff_witness:
  "getProp (mapPlannerToTodo task0 None True) (js ''status'') = Some (JStr (js ''completed''))
   \<and> getProp (mapPlannerToTodo (task0\<lparr>pt_percentComplete := 99\<rparr>) None True) (js ''status'')
       = Some (JStr (js ''notStarted''))"
  using C6_status_iff [of task0 None True]
    C6_status_iff [of "task0\<lparr>pt_percentComplete := 99\<rparr>" None True]
  by (simp add: task0_def)

text \<open>
  C7, as stated, fails where the details carry a description that is the empty string: the claim
  puts the (empty) description and a blank line before the metadata lines, the code emits the
  metadata lines alone, because it tests the description for truthiness.
\<close>

theorem C7_counterexample:
  "buildTaskBody task0 (Some \<lparr>ptd_description = Some [], ptd_checklist = None\<rparr>)
     = join nl (metadataLines task0)
   \<and> buildTaskBody task0 (Some \<lparr>ptd_description = Some [], ptd_checklist = None\<rparr>)
     \<noteq> [] @ nl @ nl @ join nl (metadataLines task0)"
  by (simp add: buildTaskBody_def descriptionLines_def nl_def)

text \<open>
  C7, amended. For every source task and every optional details record the body ends with the
  four metadata lines (the fixed header, the plan id, the task id, the creation timestamp, in
  that order, separated by newlines). When the details carry a non-empty description, the body
  is that description, a blank line and the four lines; when the details are absent, or carry
  no description or an empty one, the body is exactly the four lines.
\<close>

theorem C7_body_amended:
  "suffix (js ''--- Converted from Planner ---'' @ nl @ js ''Plan ID: '' @ pt_planId task @ nl @
           js ''Original Task ID: '' @ pt_id task @ nl @ js ''Created: '' @ pt_createdDateTime task)
          (buildTaskBody task details)
   \<and> buildTaskBody task details =
       (case details of
          None \<Rightarrow> []
        | Some d \<Rightarrow>
            (case ptd_description d of
               None \<Rightarrow> []
             | Some t \<Rightarrow> if t \<noteq> [] then t @ nl @ nl else [])) @
       js ''--- Converted from Planner ---'' @ nl @ js ''Plan ID: '' @ pt_planId task @ nl @
       js ''Original Task ID: '' @ pt_id task @ nl @ js ''Created: '' @ pt_createdDateTime task"
proof -
  let ?footer = "js ''--- Converted from Planner ---'' @ nl @ js ''Plan ID: '' @ pt_planId task @ nl @
     js ''Original Task ID: '' @ pt_id task @ nl @ js ''Created: '' @ pt_createdDateTime task"
  have body: "buildTaskBody task details =
       (case details of
          None \<Rightarrow> []
        | Some d \<Rightarrow>
            (case ptd_description d of
               None \<Rightarrow> []
             | Some t \<Rightarrow> if t \<noteq> [] then t @ nl @ nl else [])) @ ?footer"
    unfolding buildTaskBody_def descriptionLines_def
    by (simp add: metadataLines_def split: option.split)
  have "suffix ?footer (buildTaskBody task details)"
    unfolding body by (rule suffixI) (rule refl)
  with body show ?thesis by blast
qed

text \<open>C7, amended, with a description and without details.\<close>

theorem C7_body_amended_witness:
  "buildTaskBody task0 (Some \<lparr>ptd_description = Some (js ''Tap M6''), ptd_checklist = None\<rparr>)
     = js ''Tap M6'' @ nl @ nl @
       js ''--- Converted from Planner ---'' @ nl @ js ''Plan ID: p1'' @ nl @
       js ''Original Task ID: t1'' @ nl @ js ''Created: 2026-02-07T10:00:00Z''
   \<and> buildTaskBody task0 None
     = js ''--- Converted from Planner ---'' @ nl @ js ''Plan ID: p1'' @ nl @
       js ''Original Task ID: t1'' @ nl @ js ''Created: 2026-02-07T10:00:00Z''"
  using C7_body_amended [of task0 "Some \<lparr>ptd_description = Some (js ''Tap M6''), ptd_checklist = None\<rparr>"]
    C7_body_amended [of task0 None]
  by (simp add: task0_def js_def)

section \<open>The search keyword\<close>

text \<open>Quantifiers over a single character class, unfolded one code unit at a time.\<close>

lemma ends_Star_Chr_Nil: "ends (Star (Chr p)) [] = [Nil]"
  by (simp add: ends.simps(6))

lemma ends_Star_Chr_Cons:
  "ends (Star (Chr p)) (c # cs) = (if p c then ends (Star (Chr p)) cs @ [c # cs] else [c # cs])"
  by (simp add: ends.simps(6) [of "Chr p" "c # cs"])

lemma ends_LazyStar_Chr_Nil: "ends (LazyStar (Chr p)) [] = [Nil]"
  by (simp add: ends.simps(7))

lemma ends_LazyStar_Chr_Cons:
  "ends (LazyStar (Chr p)) (c # cs) = (c # cs) # (if p c then ends (LazyStar (Chr p)) cs else [])"
  by (simp add: ends.simps(7) [of "Chr p" "c # cs"])

lemma ends_Star_Chr_hd: "\<exists>ts. ends (Star (Chr p)) s = dropWhile p s # ts"
proof (induction s)
  case Nil
  show ?case by (simp add: ends_Star_Chr_Nil)
next
  case (Cons c cs)
  then show ?case by (auto simp: ends_Star_Chr_Cons)
qed

lemma ends_Plus_Chr_Nil: "ends (Plus (Chr p)) [] = []"
  by (simp add: Plus_def)

lemma ends_Plus_Chr_Cons:
  "ends (Plus (Chr p)) (c # cs) = (if p c then ends (Star (Chr p)) cs else [])"
  by (simp add: Plus_def)

lemma replace_all_Nil: "ends r [] = [] \<Longrightarrow> replace_all r f [] = []"
  by (simp add: replace_all.simps)

lemma replace_all_skip:
  assumes "ends r (c # cs) = []"
  shows "replace_all r f (c # cs) = c # replace_all r f cs"
proof (cases "search r cs")
  case None
  with assms show ?thesis
    by (simp add: replace_all.simps [of r f "c # cs"] replace_all.simps [of r f cs])
next
  case (Some x)
  obtain b m a where x: "x = (b, m, a)" by (cases x)
  with Some assms show ?thesis
    by (simp add: replace_all.simps [of r f "c # cs"] replace_all.simps [of r f cs]
        split: list.split)
qed

lemma replace_all_hit:
  assumes "ends r (c # cs) = t # ts" and "length t < length (c # cs)"
  shows "replace_all r f (c # cs) =
           f (take (length (c # cs) - length t) (c # cs)) @ replace_all r f t"
proof -
  from assms(2) have "take (length (c # cs) - length t) (c # cs) \<noteq> []"
    by (simp add: Suc_diff_le)
  with assms(1) show ?thesis
    by (simp add: replace_all.simps [of r f "c # cs"])
qed

text \<open>The two global replacements of the keyword extraction.\<close>

lemma replace_all_hashtag: "replace_all hashtag_re (\<lambda>_. []) s = strip_hashtags s"
proof (induction s rule: strip_hashtags.induct)
  case 1
  show ?case
    by (simp add: replace_all_Nil hashtag_re_def)
next
  case (2 c cs)
  show ?case
  proof (cases "c = 35 \<and> (case cs of [] \<Rightarrow> False | d # _ \<Rightarrow> is_word d)")
    case True
    then obtain d ds where cs: "cs = d # ds" "is_word d" "c = 35"
      by (auto split: list.splits)
    obtain ts where ts: "ends (Star (Chr is_word)) ds = dropWhile is_word ds # ts"
      using ends_Star_Chr_hd by blast
    have e: "ends hashtag_re (c # cs) = dropWhile is_word cs # ts"
      using cs ts by (simp add: hashtag_re_def ends_Plus_Chr_Cons)
    have "length (dropWhile is_word cs) < length (c # cs)"
      by (simp add: le_imp_less_Suc length_dropWhile_le)
    from replace_all_hit [OF e this, of "\<lambda>_. []"] "2.IH"(1) [OF True] True
    show ?thesis by simp
  next
    case False
    then have "ends hashtag_re (c # cs) = []"
      by (auto simp: hashtag_re_def ends_Plus_Chr_Cons ends_Plus_Chr_Nil split: list.splits)
    from replace_all_skip [OF this] "2.IH"(2) [OF False] False
    show ?thesis by auto
  qed
qed

lemma replace_all_special:
  "replace_all special_re (\<lambda>_. js '' '') s =
     map (\<lambda>c. if is_word c \<or> is_space c then c else 32) s"
proof (induction s)
  case Nil
  show ?case by (simp add: replace_all_Nil special_re_def)
next
  case (Cons c cs)
  show ?case
  proof (cases "is_word c \<or> is_space c")
    case True
    then have "ends special_re (c # cs) = []"
      by (simp add: special_re_def)
    from replace_all_skip [OF this] Cons True show ?thesis by simp
  next
    case False
    then have e: "ends special_re (c # cs) = cs # []"
      by (simp add: special_re_def)
    have "length cs < length (c # cs)" by simp
    from replace_all_hit [OF e this, of "\<lambda>_. js '' ''"] Cons False show ?thesis
      by (simp add: js_def)
  qed
qed

text \<open>Whitespace at either end, and what \<open>split\<close> makes of a trimmed string.\<close>

lemma is_word_not_space: "is_word c \<Longrightarrow> \<not> is_space c"
  by (auto simp: is_word_def is_space_def Let_def)

lemma is_space_32: "is_space 32"
  by (simp add: is_space_def)

lemma words_of_dropWhile_space: "words_of (dropWhile is_space s) = words_of s"
  by (induction s) simp_all

lemma words_of_snoc_space:
  "is_space c \<Longrightarrow> words_of (s @ [c]) = words_of s"
proof (induction s rule: words_of.induct)
  case 1
  then show ?case by simp
next
  case (2 d ds)
  show ?case
  proof (cases "is_space d")
    case True
    with 2 show ?thesis by simp
  next
    case False
    show ?thesis
    proof (cases "\<forall>x\<in>set ds. \<not> is_space x")
      case True
      then have tw: "takeWhile (\<lambda>x. \<not> is_space x) ds = ds"
        and dw: "dropWhile (\<lambda>x. \<not> is_space x) ds = []"
        by simp_all
      from True False "2.prems" show ?thesis
        by (simp add: dropWhile_append tw dw)
    next
      case all: False
      with False "2.prems" "2.IH"(2) show ?thesis
        by (auto simp: dropWhile_append)
    qed
  qed
qed

lemma words_of_rstrip: "words_of (rev (dropWhile is_space (rev u))) = words_of u"
proof (induction u rule: rev_induct)
  case Nil
  show ?case by simp
next
  case (snoc c v)
  then show ?case
    by (simp add: words_of_snoc_space)
qed

lemma words_of_trim: "words_of (trim s) = words_of s"
  by (simp add: trim_def words_of_rstrip words_of_dropWhile_space)

lemma ends_spaces_Nil: "ends spaces_re [] = []"
  by (simp add: spaces_re_def ends_Plus_Chr_Nil)

lemma ends_spaces_nonspace: "\<not> is_space c \<Longrightarrow> ends spaces_re (c # cs) = []"
  by (simp add: spaces_re_def ends_Plus_Chr_Cons)

lemma ends_spaces_space:
  "is_space c \<Longrightarrow> \<exists>ts. ends spaces_re (c # cs) = dropWhile is_space cs # ts"
  by (simp add: spaces_re_def ends_Plus_Chr_Cons ends_Star_Chr_hd)

lemma split_loop_spaces:
  "s = [] \<or> \<not> is_space (last s) \<Longrightarrow> acc @ takeWhile (\<lambda>x. \<not> is_space x) s \<noteq> [] \<Longrightarrow>
   split_loop spaces_re acc s =
     (acc @ takeWhile (\<lambda>x. \<not> is_space x) s) # words_of (dropWhile (\<lambda>x. \<not> is_space x) s)"
proof (induction "length s" arbitrary: s acc rule: less_induct)
  case less
  show ?case
  proof (cases s)
    case Nil
    then show ?thesis by simp
  next
    case (Cons c cs)
    show ?thesis
    proof (cases "is_space c")
      case False
      from less.prems(1) Cons have "cs = [] \<or> \<not> is_space (last cs)"
        by (auto split: if_splits)
      moreover have "(acc @ [c]) @ takeWhile (\<lambda>x. \<not> is_space x) cs \<noteq> []"
        by simp
      ultimately have "split_loop spaces_re (acc @ [c]) cs =
          ((acc @ [c]) @ takeWhile (\<lambda>x. \<not> is_space x) cs) #
          words_of (dropWhile (\<lambda>x. \<not> is_space x) cs)"
        using Cons by (intro less.hyps) simp_all
      with False Cons show ?thesis
        by (simp add: ends_spaces_nonspace)
    next
      case True
      let ?t = "dropWhile is_space cs"
      obtain ts where e: "ends spaces_re (c # cs) = ?t # ts"
        using ends_spaces_space [OF True] by blast
      have lt: "length ?t < length (c # cs)"
        by (simp add: le_imp_less_Suc length_dropWhile_le)
      from True Cons less.prems have acc: "acc \<noteq> []" and lastcs: "cs \<noteq> []" "\<not> is_space (last cs)"
        by (auto split: if_splits)
      from lastcs have "last cs \<in> set cs" "\<not> is_space (last cs)"
        by simp_all
      then have tne: "?t \<noteq> []"
        by auto
      then obtain d ds where t: "?t = d # ds"
        by (cases ?t) auto
      from tne have nd: "\<not> is_space d"
        using hd_dropWhile [of is_space cs] t by simp
      have "last (takeWhile is_space cs @ ?t) = last ?t"
        using tne by (rule last_appendR)
      then have "last ?t = last cs"
        by simp
      with lastcs have "?t = [] \<or> \<not> is_space (last ?t)"
        by simp
      moreover have "[] @ takeWhile (\<lambda>x. \<not> is_space x) ?t \<noteq> []"
        using t nd by simp
      ultimately have "split_loop spaces_re [] ?t =
          ([] @ takeWhile (\<lambda>x. \<not> is_space x) ?t) # words_of (dropWhile (\<lambda>x. \<not> is_space x) ?t)"
        using lt Cons by (intro less.hyps) simp_all
      also have "\<dots> = words_of ?t"
        using t nd by simp
      also have "\<dots> = words_of cs"
        by (rule words_of_dropWhile_space)
      finally have "split_loop spaces_re [] ?t = words_of cs" .
      with e lt True Cons show ?thesis
        by simp
    qed
  qed
qed

lemma trim_ends:
  assumes "trim s \<noteq> []"
  shows "\<not> is_space (hd (trim s))" and "\<not> is_space (last (trim s))"
proof -
  let ?u = "dropWhile is_space s"
  from assms have r: "dropWhile is_space (rev ?u) \<noteq> []"
    by (simp add: trim_def)
  then have "\<not> is_space (hd (dropWhile is_space (rev ?u)))"
    by (rule hd_dropWhile)
  with r show "\<not> is_space (last (trim s))"
    by (simp add: trim_def last_rev)
  have une: "?u \<noteq> []"
  proof
    assume "?u = []"
    with r show False by simp
  qed
  then have nh: "\<not> is_space (hd ?u)"
    by (rule hd_dropWhile)
  from une obtain d ds where u: "?u = d # ds"
    by (cases ?u) auto
  have "\<exists>x. dropWhile is_space (rev ?u) = x @ [d]"
    unfolding u using nh u by (simp add: dropWhile_append)
  then obtain x where "dropWhile is_space (rev ?u) = x @ [d]" ..
  then have "trim s = d # rev x"
    by (simp add: trim_def)
  with nh u show "\<not> is_space (hd (trim s))" by simp
qed

lemma find_split_trim:
  "find (\<lambda>w. 3 < length w) (split spaces_re (trim s)) = find (\<lambda>w. 3 < length w) (words_of s)"
proof (cases "trim s = []")
  case True
  then have "words_of s = []"
    using words_of_trim [of s] by simp
  with True show ?thesis
    by (simp add: split_def ends_spaces_Nil)
next
  case False
  then obtain d ds where t: "trim s = d # ds"
    by (cases "trim s") auto
  from trim_ends [OF False] t have nd: "\<not> is_space d" and nl: "\<not> is_space (last (trim s))"
    by simp_all
  have "split spaces_re (trim s) = split_loop spaces_re [] (trim s)"
    using False by (simp add: split_def)
  also have "\<dots> = ([] @ takeWhile (\<lambda>x. \<not> is_space x) (trim s)) #
      words_of (dropWhile (\<lambda>x. \<not> is_space x) (trim s))"
    using nl nd t by (intro split_loop_spaces) simp_all
  also have "\<dots> = words_of (trim s)"
    using t nd by simp
  finally show ?thesis
    by (simp add: words_of_trim)
qed

lemma words_of_map_cong:
  assumes "\<And>c. is_space (f c) = is_space (g c)" and "\<And>c. \<not> is_space (f c) \<Longrightarrow> f c = g c"
  shows "words_of (map f x) = words_of (map g x)"
proof (induction "length x" arbitrary: x rule: less_induct)
  case less
  show ?case
  proof (cases x)
    case Nil
    then show ?thesis by simp
  next
    case (Cons c cs)
    show ?thesis
    proof (cases "is_space (f c)")
      case True
      with Cons assms(1) [of c] less.hyps [of cs] show ?thesis by simp
    next
      case False
      have eq: "(\<lambda>x. \<not> is_space x) \<circ> f = (\<lambda>x. \<not> is_space x) \<circ> g"
        using assms(1) by (auto simp: fun_eq_iff)
      have tw: "map f (takeWhile ((\<lambda>x. \<not> is_space x) \<circ> g) cs) =
                map g (takeWhile ((\<lambda>x. \<not> is_space x) \<circ> g) cs)"
        using assms by (auto dest!: set_takeWhileD)
      have "length (dropWhile ((\<lambda>x. \<not> is_space x) \<circ> g) cs) < length x"
        using Cons by (simp add: le_imp_less_Suc length_dropWhile_le)
      then have dw: "words_of (map f (dropWhile ((\<lambda>x. \<not> is_space x) \<circ> g) cs)) =
                     words_of (map g (dropWhile ((\<lambda>x. \<not> is_space x) \<circ> g) cs))"
        by (rule less.hyps)
      from False assms(1) [of c] assms(2) [of c] Cons show ?thesis
        by (simp add: takeWhile_map dropWhile_map eq tw dw)
    qed
  qed
qed

lemma words_of_blank:
  "words_of (map (\<lambda>c. if is_word c \<or> is_space c then c else 32) x) = words_of (blank_nonword x)"
  unfolding blank_nonword_def
  by (rule words_of_map_cong) (auto simp: is_space_32 is_word_not_space)

lemma searchKeyword_keyword_spec: "searchKeyword title = keyword_spec title"
  by (simp add: searchKeyword_def keyword_spec_def find_split_trim replace_all_hashtag
      replace_all_special words_of_blank)

lemma keyword_example: "keyword_spec (js ''#ENG #BuildPart - Tapped Hole'') = js ''Tapped''"
  by (simp add: keyword_spec_def blank_nonword_def js_def is_word_def is_space_def)

text \<open>
  C1, as stated, fails at its own example: the hash-tag tokens \<open>#ENG\<close> and \<open>#BuildPart\<close> are
  removed whole, so the first token longer than 3 characters that remains is \<open>Tapped\<close>.
\<close>

theorem C1_counterexample:
  "searchKeyword (js ''#ENG #BuildPart - Tapped Hole'') = js ''Tapped''
   \<and> searchKeyword (js ''#ENG #BuildPart - Tapped Hole'') \<noteq> js ''BuildPart''"
proof -
  have "js ''Tapped'' \<noteq> js ''BuildPart''"
    by (simp add: js_def)
  then show ?thesis
    by (simp add: searchKeyword_keyword_spec keyword_example)
qed

text \<open>
  C1, amended. For every title the keyword that the find operation derives with its regular
  expressions is the one the specification describes: remove the hash-tag tokens, replace
  the non-word characters with spaces, split on whitespace and take the first token longer
  than 3 characters (code units), falling back to the first 20 characters of the raw title
  when no token qualifies; for the title \<open>#ENG #BuildPart - Tapped Hole\<close> this keyword is
  \<open>Tapped\<close>.
\<close>

theorem C1_keyword_amended:
  "searchKeyword title =
     (case find (\<lambda>w. 3 < length w) (words_of (blank_nonword (strip_hashtags title))) of
        Some w \<Rightarrow> w
      | None \<Rightarrow> take 20 title)
   \<and> searchKeyword (js ''#ENG #BuildPart - Tapped Hole'') = js ''Tapped''"
  using searchKeyword_keyword_spec [of title]
    searchKeyword_keyword_spec [of "js ''#ENG #BuildPart - Tapped Hole''"]
  by (simp add: keyword_spec_def [of title] keyword_example)

text \<open>C1, amended, at a title with a token after a hash tag and at one with no long token.\<close>

theorem C1_keyword_amended_witness:
  "searchKeyword (js ''fix: the pump#2 seal'') = js ''pump''
   \<and> searchKeyword (js ''a b'') = js ''a b''"
  using C1_keyword_amended [of "js ''fix: the pump#2 seal''"] C1_keyword_amended [of "js ''a b''"]
  by (simp add: blank_nonword_def js_def is_word_def is_space_def)

section \<open>The search loop\<close>

lemma issue_log: "issue env rq s = (r, s') \<Longrightarrow> snd s' = snd s @ [rq]"
  by (auto simp: issue_def split: prod.splits)

lemma fetch_log: "fetch env parse rq s = (r, s') \<Longrightarrow> snd s' = snd s @ [rq]"
  by (auto simp: fetch_def split: prod.splits sum.splits dest: issue_log)

lemma issueAll_log: "issueAll env rqs s = (outs, s') \<Longrightarrow> snd s' = snd s @ rqs \<and> length outs = length rqs"
proof (induction rqs arbitrary: s outs s')
  case Nil
  then show ?case by simp
next
  case (Cons rq rqs)
  obtain r s1 where i: "issue env rq s = (r, s1)"
    by (cases "issue env rq s")
  obtain rs s2 where a: "issueAll env rqs s1 = (rs, s2)"
    by (cases "issueAll env rqs s1")
  from Cons.prems i a have "outs = r # rs" "s' = s2" by simp_all
  with Cons.IH [OF a] issue_log [OF i] show ?case by simp
qed

lemma scanTasks_exact:
  assumes "JNull \<notin> set before"
    and "getProp task (js ''title'') = Some (JStr title)"
  shows "\<exists>allMatches' m. scanTasks title l (before @ task # after) allMatches = (allMatches', Exact m)"
  using assms(1)
proof (induction before arbitrary: allMatches)
  case Nil
  from assms(2) have "task \<noteq> JNull" by auto
  with assms(2) show ?case by (simp add: Let_def)
next
  case (Cons t ts)
  then have "t \<noteq> JNull" "JNull \<notin> set ts" by auto
  with Cons.IH show ?case
    by (simp add: Let_def)
qed

lemma scanTasks_title:
  "scanTasks title l tasks allMatches = (allMatches', Exact m) \<Longrightarrow>
   getProp (ft_task m) (js ''title'') = Some (JStr title) \<and> ft_listId m = l"
  by (induction tasks arbitrary: allMatches) (auto simp: Let_def split: if_splits)

lemma searchList_title:
  "searchList env title filter_s l allMatches s = (allMatches', Some m, s') \<Longrightarrow>
   getProp (ft_task m) (js ''title'') = Some (JStr title) \<and> ft_listId m = l"
  by (auto simp: searchList_def split: sum.splits if_splits option.splits json.splits
      prod.splits scan.splits dest: scanTasks_title)

lemma searchList_exact:
  assumes "encodeURIComponent env filter_s = Inr q"
    and "fetch env (parseJson env) (tasksRequest l q) s = (Inr data, s')"
    and "getProp data (js ''value'') = Some (JArr (before @ task # after))"
    and "JNull \<notin> set before"
    and "getProp task (js ''title'') = Some (JStr title)"
  shows "\<exists>allMatches' m. searchList env title filter_s l allMatches s = (allMatches', Some m, s')"
proof -
  from assms(3) have nn: "data \<noteq> JNull" by auto
  from scanTasks_exact [OF assms(4,5), of l after allMatches]
  obtain allMatches' m where
    "scanTasks title l (before @ task # after) allMatches = (allMatches', Exact m)"
    by blast
  with assms(1,2,3) nn show ?thesis
    by (simp add: searchList_def)
qed

lemma searchList_state:
  assumes "encodeURIComponent env filter_s = Inr q"
    and "searchList env title filter_s l allMatches s = (allMatches', r, s')"
  shows "snd (issue env (tasksRequest l q) s) = s'"
  using assms
  by (auto simp: searchList_def fetch_def split: sum.splits if_splits option.splits json.splits
      prod.splits scan.splits)

lemma searchList_log:
  assumes "encodeURIComponent env filter_s = Inr q"
    and "searchList env title filter_s l allMatches s = (allMatches', r, s')"
  shows "snd s' = snd s @ [tasksRequest l q]"
proof -
  obtain x s1 where i: "issue env (tasksRequest l q) s = (x, s1)"
    by (cases "issue env (tasksRequest l q) s")
  with searchList_state [OF assms] have "s' = s1" by simp
  with issue_log [OF i] show ?thesis by simp
qed

text \<open>
  The loop against the queries of all the lists issued one after the other: it either runs
  through them all without an exact match, or ends with one after the queries of some of them.
\<close>

lemma searchLists_run:
  assumes "encodeURIComponent env filter_s = Inr q"
  shows "searchLists env title filter_s ls allMatches s = (allMatches', ex, s') \<Longrightarrow>
         issueAll env (map (\<lambda>p. tasksRequest p q) ls) s = (outcomes, s2) \<Longrightarrow>
         (ex = None \<and> s' = s2) \<or>
         (\<exists>m k. ex = Some m \<and> k < length ls
            \<and> snd s' = snd s @ map (\<lambda>p. tasksRequest p q) (take (Suc k) ls)
            \<and> getProp (ft_task m) (js ''title'') = Some (JStr title))"
proof (induction ls arbitrary: allMatches s outcomes)
  case Nil
  then show ?case by simp
next
  case (Cons l ls)
  obtain a r s1 where sl: "searchList env title filter_s l allMatches s = (a, r, s1)"
    by (cases "searchList env title filter_s l allMatches s") auto
  obtain x where i: "issue env (tasksRequest l q) s = (x, s1)"
    using searchList_state [OF assms sl] by (cases "issue env (tasksRequest l q) s") auto
  obtain outs where rest: "issueAll env (map (\<lambda>p. tasksRequest p q) ls) s1 = (outs, s2)"
    using Cons.prems(2) i by (auto split: prod.splits)
  note lg = searchList_log [OF assms sl]
  show ?case
  proof (cases r)
    case (Some m)
    with Cons.prems(1) sl have "ex = Some m" "s' = s1" by simp_all
    moreover from sl Some have "getProp (ft_task m) (js ''title'') = Some (JStr title)"
      using searchList_title by blast
    ultimately have "ex = Some m \<and> 0 < length (l # ls)
        \<and> snd s' = snd s @ map (\<lambda>p. tasksRequest p q) (take (Suc 0) (l # ls))
        \<and> getProp (ft_task m) (js ''title'') = Some (JStr title)"
      using lg by simp
    then show ?thesis by blast
  next
    case None
    with Cons.prems(1) sl have run: "searchLists env title filter_s ls a s1 = (allMatches', ex, s')"
      by simp
    from Cons.IH [OF run rest] show ?thesis
    proof
      assume "ex = None \<and> s' = s2"
      then show ?thesis ..
    next
      assume "\<exists>m k. ex = Some m \<and> k < length ls
            \<and> snd s' = snd s1 @ map (\<lambda>p. tasksRequest p q) (take (Suc k) ls)
            \<and> getProp (ft_task m) (js ''title'') = Some (JStr title)"
      then obtain m k where "ex = Some m" "k < length ls"
        "snd s' = snd s1 @ map (\<lambda>p. tasksRequest p q) (take (Suc k) ls)"
        "getProp (ft_task m) (js ''title'') = Some (JStr title)"
        by blast
      with lg have "ex = Some m \<and> Suc k < length (l # ls)
          \<and> snd s' = snd s @ map (\<lambda>p. tasksRequest p q) (take (Suc (Suc k)) (l # ls))
          \<and> getProp (ft_task m) (js ''title'') = Some (JStr title)"
        by simp
      then show ?thesis by blast
    qed
  qed
qed

lemma searchLists_append:
  "searchLists env title filter_s pre allMatches s = (allMatches1, None, s1) \<Longrightarrow>
   searchLists env title filter_s (pre @ rest) allMatches s =
     searchLists env title filter_s rest allMatches1 s1"
proof (induction pre arbitrary: allMatches s)
  case Nil
  then show ?case by simp
next
  case (Cons l ls)
  obtain a r s2 where sl: "searchList env title filter_s l allMatches s = (a, r, s2)"
    by (cases "searchList env title filter_s l allMatches s") auto
  with Cons.prems have r: "r = None" and rest: "searchLists env title filter_s ls a s2 = (allMatches1, None, s1)"
    by (auto split: option.splits)
  from Cons.IH [OF rest] sl r show ?case
    by simp
qed

lemma searchLists_stop:
  "searchLists env title filter_s pre allMatches s = (allMatches1, Some m, s1) \<Longrightarrow>
   searchLists env title filter_s (pre @ rest) allMatches s = (allMatches1, Some m, s1)"
proof (induction pre arbitrary: allMatches s)
  case Nil
  then show ?case by simp
next
  case (Cons l ls)
  obtain a r s2 where sl: "searchList env title filter_s l allMatches s = (a, r, s2)"
    by (cases "searchList env title filter_s l allMatches s") auto
  show ?case
  proof (cases r)
    case None
    with Cons.prems sl have "searchLists env title filter_s ls a s2 = (allMatches1, Some m, s1)"
      by simp
    from Cons.IH [OF this] sl None show ?thesis by simp
  next
    case (Some m')
    with Cons.prems sl show ?thesis by simp
  qed
qed

lemma tasksRequest_inject: "tasksRequest p q = tasksRequest p' q \<Longrightarrow> p = p'"
  by (simp add: tasksRequest_def GET_def)

lemma tasksRequest_not_listing: "tasksRequest p q \<noteq> GET (js ''/me/todo/lists'')"
  by (simp add: tasksRequest_def GET_def js_def)

lemma listsToSearch_log:
  "listsToSearch env params s = (x, s1) \<Longrightarrow>
   snd s1 = snd s \<or> snd s1 = snd s @ [GET (js ''/me/todo/lists'')]"
  by (auto simp: listsToSearch_def prioritizedLists_def
      split: option.splits if_splits prod.splits sum.splits dest: fetch_log)

lemma key_simps:
  "js ''matchType'' \<noteq> js ''success''" "js ''matchType'' \<noteq> js ''error''"
  "js ''exact'' \<noteq> js ''partial''" "js ''none'' \<noteq> js ''partial''"
  "js ''matches'' \<noteq> js ''success''" "js ''matches'' \<noteq> js ''matchType''"
  "js ''matches'' \<noteq> js ''message''"
  by (simp_all add: js_def)

text \<open>The service and the lists of the concrete search.\<close>

lemma env1_simps:
  "encodeURIComponent (env1 a b c) = Inr"
  "parseJson (env1 a b c) (js ''first'') = Inr (JObj [(js ''value'', JArr a)])"
  "parseJson (env1 a b c) (js ''second'') = Inr (JObj [(js ''value'', JArr b)])"
  "parseJson (env1 a b c) (js ''third'') = Inr (JObj [(js ''value'', JArr c)])"
  "parseLists (env1 a b c) (js ''lists'') = Inr (Some lists1)"
  "graphRequest (env1 a b c) rq w =
     (Inr [(js ''text'', if w = 0 then js ''lists'' else if w = 1 then js ''first''
                         else if w = 2 then js ''second'' else js ''third'')], w + 1)"
proof -
  have "js ''second'' \<noteq> js ''first''" "js ''third'' \<noteq> js ''first''" "js ''third'' \<noteq> js ''second''"
    by (simp_all add: js_def)
  then show "parseJson (env1 a b c) (js ''second'') = Inr (JObj [(js ''value'', JArr b)])"
    "parseJson (env1 a b c) (js ''third'') = Inr (JObj [(js ''value'', JArr c)])"
    by (simp_all add: env1_def)
qed (simp_all add: env1_def)

lemma params1_simps:
  "fp_title params1 = js ''Tapped Hole''" "fp_todoTaskListId params1 = None"
  by (simp_all add: params1_def)

lemma title_simps:
  "getProp older (js ''title'') = Some (JStr (js ''Tapped Hole (old)''))"
  "getProp later (js ''title'') = Some (JStr (js ''Tapped Hole 2''))"
  "getProp wanted (js ''title'') = Some (JStr (js ''Tapped Hole''))"
  "js ''Tapped Hole (old)'' \<noteq> js ''Tapped Hole''" "js ''Tapped Hole 2'' \<noteq> js ''Tapped Hole''"
  "older \<noteq> JNull" "later \<noteq> JNull" "wanted \<noteq> JNull"
  "JNull \<noteq> older" "JNull \<noteq> later" "JNull \<noteq> wanted"
  "getProp (JObj [(js ''value'', v)]) (js ''value'') = Some v"
  "JObj [(js ''value'', v)] \<noteq> JNull"
  by (simp_all add: older_def later_def wanted_def js_def)

lemma fetch_env1:
  "fetch (env1 a b c) (parseLists (env1 a b c)) rq (0, lg) = (Inr (Some lists1), (1, lg @ [rq]))"
  "fetch (env1 a b c) (parseJson (env1 a b c)) rq (1, lg) =
     (Inr (JObj [(js ''value'', JArr a)]), (2, lg @ [rq]))"
  "fetch (env1 a b c) (parseJson (env1 a b c)) rq (2, lg) =
     (Inr (JObj [(js ''value'', JArr b)]), (3, lg @ [rq]))"
  "fetch (env1 a b c) (parseJson (env1 a b c)) rq (3, lg) =
     (Inr (JObj [(js ''value'', JArr c)]), (4, lg @ [rq]))"
  by (simp_all add: fetch_def issue_def responseText_def env1_simps)

lemma listScore1:
  "listScore \<lparr>tl_id = js ''C'', tl_displayName = js ''Inbox'', tl_wellknownListName = js ''none''\<rparr> = 999"
  "listScore \<lparr>tl_id = js ''B'', tl_displayName = js ''Goal Phase Tasks'',
              tl_wellknownListName = js ''none''\<rparr> = 1"
  "listScore \<lparr>tl_id = js ''A'', tl_displayName = js ''ROI Tasks'', tl_wellknownListName = js ''none''\<rparr> = 0"
  by (simp_all add: listScore_def priorityOrder_def js_def Let_def)

lemma listsToSearch1:
  "listsToSearch (env1 a b c) params1 (0, []) =
     (Inr [js ''A'', js ''B'', js ''C''], (1, [GET (js ''/me/todo/lists'')]))"
  by (simp add: listsToSearch_def prioritizedLists_def params1_simps fetch_env1 lists1_def
      sort_by_def listScore1)

text \<open>
  C2, as stated, fails where an entry of the result set throws before the scan reaches the
  exact match: the \<open>catch\<close> of the loop then moves on to the next list. The lists \<open>A\<close>, \<open>B\<close>, \<open>C\<close>
  are searched in this order; the result set of \<open>A\<close> holds \<open>null\<close> and then a task with the title
  asked for, and yet \<open>B\<close> and \<open>C\<close> are queried.
\<close>

theorem C2_counterexample:
  "listsToSearch (env1 [JNull, wanted] [] []) params1 (0, []) =
     (Inr [js ''A'', js ''B'', js ''C''], (1, [GET (js ''/me/todo/lists'')]))
   \<and> fetch (env1 [JNull, wanted] [] []) (parseJson (env1 [JNull, wanted] [] []))
         (tasksRequest (js ''A'') (searchFilter params1)) (1, [GET (js ''/me/todo/lists'')]) =
       (Inr (JObj [(js ''value'', JArr [JNull, wanted])]),
        (2, [GET (js ''/me/todo/lists''), tasksRequest (js ''A'') (searchFilter params1)]))
   \<and> getProp wanted (js ''title'') = Some (JStr (fp_title params1))
   \<and> snd (snd (findTodoTask (env1 [JNull, wanted] [] []) params1 (0, []))) =
       [GET (js ''/me/todo/lists''),
        tasksRequest (js ''A'') (searchFilter params1),
        tasksRequest (js ''B'') (searchFilter params1),
        tasksRequest (js ''C'') (searchFilter params1)]"
  by (simp add: findTodoTask_def listsToSearch1 searchList_def fetch_env1 env1_simps title_simps
      params1_simps Let_def)

text \<open>
  C2, amended. Let the find operation search the lists \<open>pre @ l # post\<close>, in this order, and let
  the query of \<open>l\<close>, issued after the queries of the lists of \<open>pre\<close>, return a result set with a
  task whose title is equal to the query title, code unit for code unit, and with no \<open>null\<close>
  among the entries before that task. Then the operation answers with an exact match, and the
  queries it issues after it has determined the lists are those of the first lists of
  \<open>pre @ [l]\<close>, in order, up to the list that gave the exact match: it issues no request for
  a list of \<open>post\<close>, nor any query of a list other than those of \<open>pre\<close> and \<open>l\<close>.
\<close>

theorem C2_short_circuit_amended:
  assumes "listsToSearch env params s = (Inr (pre @ l # post), s1)"
    and "encodeURIComponent env (searchFilter params) = Inr q"
    and "issueAll env (map (\<lambda>p. tasksRequest p q) pre) s1 = (outcomes, s2)"
    and "fetch env (parseJson env) (tasksRequest l q) s2 = (Inr data, s3)"
    and "getProp data (js ''value'') = Some (JArr (before @ task # after))"
    and "JNull \<notin> set before"
    and "getProp task (js ''title'') = Some (JStr (fp_title params))"
    and "findTodoTask env params s = (r, s')"
  shows "getProp (tr_payload r) (js ''matchType'') = Some (JStr (js ''exact''))
    \<and> (\<exists>k\<le>length pre. snd s' = snd s1 @ map (\<lambda>p. tasksRequest p q) (take (Suc k) (pre @ [l])))
    \<and> (\<exists>issued. snd s' = snd s @ issued
          \<and> (\<forall>p. p \<notin> set pre \<and> p \<noteq> l \<longrightarrow> tasksRequest p q \<notin> set issued))"
proof -
  let ?title = "fp_title params" and ?f = "searchFilter params"
  let ?treq = "\<lambda>p. tasksRequest p q"
  obtain a1 ex1 sA where pre: "searchLists env ?title ?f pre [] s1 = (a1, ex1, sA)"
    by (cases "searchLists env ?title ?f pre [] s1") auto
  have "\<exists>allMatches m sZ k.
      searchLists env ?title ?f (pre @ l # post) [] s1 = (allMatches, Some m, sZ)
      \<and> k \<le> length pre \<and> snd sZ = snd s1 @ map ?treq (take (Suc k) (pre @ [l]))"
    using searchLists_run [OF assms(2) pre assms(3)]
  proof
    assume none: "ex1 = None \<and> sA = s2"
    from searchList_exact [OF assms(2,4,5,6,7), of a1]
    obtain a2 m where sl: "searchList env ?title ?f l a1 s2 = (a2, Some m, s3)"
      by blast
    from pre none have "searchLists env ?title ?f (pre @ l # post) [] s1 =
        searchLists env ?title ?f (l # post) a1 s2"
      by (simp add: searchLists_append)
    with sl have run: "searchLists env ?title ?f (pre @ l # post) [] s1 = (a2, Some m, s3)"
      by simp
    from issueAll_log [OF assms(3)] searchList_log [OF assms(2) sl]
    have "snd s3 = snd s1 @ map ?treq (take (Suc (length pre)) (pre @ [l]))"
      by simp
    with run show ?thesis by blast
  next
    assume "\<exists>m k. ex1 = Some m \<and> k < length pre
        \<and> snd sA = snd s1 @ map ?treq (take (Suc k) pre)
        \<and> getProp (ft_task m) (js ''title'') = Some (JStr ?title)"
    then obtain m k where m: "ex1 = Some m" and k: "k < length pre"
      and lg: "snd sA = snd s1 @ map ?treq (take (Suc k) pre)"
      by blast
    from pre m have run: "searchLists env ?title ?f (pre @ l # post) [] s1 = (a1, Some m, sA)"
      by (simp add: searchLists_stop)
    from k lg have "k \<le> length pre" "snd sA = snd s1 @ map ?treq (take (Suc k) (pre @ [l]))"
      by simp_all
    with run show ?thesis by blast
  qed
  then obtain allMatches m sZ k where
    run: "searchLists env ?title ?f (pre @ l # post) [] s1 = (allMatches, Some m, sZ)"
    and k: "k \<le> length pre"
    and lg: "snd sZ = snd s1 @ map ?treq (take (Suc k) (pre @ [l]))"
    by blast
  from assms(1,8) run have r: "getProp (tr_payload r) (js ''matchType'') = Some (JStr (js ''exact''))"
    and s': "s' = sZ"
    by (auto simp: findTodoTask_def key_simps)
  have 2: "\<exists>k\<le>length pre. snd s' = snd s1 @ map ?treq (take (Suc k) (pre @ [l]))"
    using k lg s' by blast
  let ?queries = "map ?treq (take (Suc k) (pre @ [l]))"
  have other: "tasksRequest p q \<notin> set ?queries" if "p \<notin> set pre \<and> p \<noteq> l" for p
  proof
    assume "tasksRequest p q \<in> set ?queries"
    then obtain p' where "p' \<in> set (take (Suc k) (pre @ [l]))" "tasksRequest p q = tasksRequest p' q"
      by auto
    then have "p' \<in> set (pre @ [l])" "p = p'"
      by (auto dest: in_set_takeD tasksRequest_inject)
    with that show False by auto
  qed
  from listsToSearch_log [OF assms(1)]
  have 3: "\<exists>issued. snd s' = snd s @ issued
      \<and> (\<forall>p. p \<notin> set pre \<and> p \<noteq> l \<longrightarrow> tasksRequest p q \<notin> set issued)"
  proof
    assume "snd s1 = snd s"
    with lg s' have "snd s' = snd s @ ?queries" by simp
    with other show ?thesis by blast
  next
    assume "snd s1 = snd s @ [GET (js ''/me/todo/lists'')]"
    with lg s' have "snd s' = snd s @ (GET (js ''/me/todo/lists'') # ?queries)" by simp
    moreover have "\<forall>p. p \<notin> set pre \<and> p \<noteq> l \<longrightarrow>
        tasksRequest p q \<notin> set (GET (js ''/me/todo/lists'') # ?queries)"
      using other tasksRequest_not_listing by simp
    ultimately show ?thesis by blast
  qed
  from r 2 3 show ?thesis by (intro conjI)
qed

text \<open>
  C2, amended, on the lists \<open>A\<close>, \<open>B\<close>, \<open>C\<close>, where the result set of \<open>B\<close> holds the exact match:
  \<open>C\<close> is not queried.
\<close>

theorem C2_short_circuit_amended_witness:
  "listsToSearch (env1 [older, later] [wanted] []) params1 (0, []) =
     (Inr ([js ''A''] @ js ''B'' # [js ''C'']), (1, [GET (js ''/me/todo/lists'')]))
   \<and> JNull \<notin> set []
   \<and> getProp wanted (js ''title'') = Some (JStr (fp_title params1))
   \<and> getProp (tr_payload (fst (findTodoTask (env1 [older, later] [wanted] []) params1 (0, []))))
         (js ''matchType'') = Some (JStr (js ''exact''))
   \<and> snd (snd (findTodoTask (env1 [older, later] [wanted] []) params1 (0, []))) =
       [GET (js ''/me/todo/lists''),
        tasksRequest (js ''A'') (searchFilter params1),
        tasksRequest (js ''B'') (searchFilter params1)]"
proof -
  let ?env = "env1 [older, later] [wanted] []"
  let ?q = "searchFilter params1"
  have h1: "listsToSearch ?env params1 (0, []) =
      (Inr ([js ''A''] @ js ''B'' # [js ''C'']), (1, [GET (js ''/me/todo/lists'')]))"
    by (simp add: listsToSearch1)
  have h2: "encodeURIComponent ?env ?q = Inr ?q"
    by (simp add: env1_simps)
  have h3: "issueAll ?env (map (\<lambda>p. tasksRequest p ?q) [js ''A'']) (1, [GET (js ''/me/todo/lists'')]) =
      ([Inr [(js ''text'', js ''first'')]],
       (2, [GET (js ''/me/todo/lists''), tasksRequest (js ''A'') ?q]))"
    by (simp add: issue_def env1_simps)
  have h4: "fetch ?env (parseJson ?env) (tasksRequest (js ''B'') ?q)
      (2, [GET (js ''/me/todo/lists''), tasksRequest (js ''A'') ?q]) =
      (Inr (JObj [(js ''value'', JArr [wanted])]),
       (3, [GET (js ''/me/todo/lists''), tasksRequest (js ''A'') ?q, tasksRequest (js ''B'') ?q]))"
    by (simp add: fetch_env1)
  have h5: "getProp (JObj [(js ''value'', JArr [wanted])]) (js ''value'') = Some (JArr ([] @ wanted # []))"
    by (simp add: title_simps)
  have h6: "JNull \<notin> set []"
    by simp
  have h7: "getProp wanted (js ''title'') = Some (JStr (fp_title params1))"
    by (simp add: title_simps params1_simps)
  have h8: "findTodoTask ?env params1 (0, []) =
      (fst (findTodoTask ?env params1 (0, [])), snd (findTodoTask ?env params1 (0, [])))"
    by simp
  have lg: "snd (snd (findTodoTask ?env params1 (0, []))) =
       [GET (js ''/me/todo/lists''), tasksRequest (js ''A'') ?q, tasksRequest (js ''B'') ?q]"
    by (simp add: findTodoTask_def listsToSearch1 searchList_def fetch_env1 env1_simps title_simps
        params1_simps Let_def)
  from C2_short_circuit_amended [OF h1 h2 h3 h4 h5 h6 h7 h8]
  have "getProp (tr_payload (fst (findTodoTask ?env params1 (0, [])))) (js ''matchType'') =
      Some (JStr (js ''exact''))"
    by blast
  with h1 h6 h7 lg show ?thesis
    by (intro conjI)
qed

section \<open>The partial-match projection\<close>

lemma optional_entries_map_of:
  "distinct fs \<Longrightarrow>
   map_of (concat (map (\<lambda>f. case h f of None \<Rightarrow> [] | Some v \<Rightarrow> [(f, v)]) fs)) k =
     (if k \<in> set fs then h k else None)"
  by (induction fs) (auto split: option.splits)

lemma optional_entries_keys:
  "fst ` set (concat (map (\<lambda>f. case h f of None \<Rightarrow> [] | Some v \<Rightarrow> [(f, v)]) fs)) =
     {f \<in> set fs. h f \<noteq> None}"
proof (induction fs)
  case Nil
  show ?case by simp
next
  case (Cons f fs)
  have "fst ` set (concat (map (\<lambda>f. case h f of None \<Rightarrow> [] | Some v \<Rightarrow> [(f, v)]) (f # fs))) =
        (case h f of None \<Rightarrow> {} | Some v \<Rightarrow> {f}) \<union>
        fst ` set (concat (map (\<lambda>f. case h f of None \<Rightarrow> [] | Some v \<Rightarrow> [(f, v)]) fs))"
    by (simp add: image_Un del: set_concat split: option.split)
  also have "\<dots> = (case h f of None \<Rightarrow> {} | Some v \<Rightarrow> {f}) \<union> {f \<in> set fs. h f \<noteq> None}"
    by (simp only: Cons.IH)
  also have "\<dots> = {g \<in> set (f # fs). h g \<noteq> None}"
    by (auto split: option.split)
  finally show ?case .
qed

lemma optional_entries_distinct:
  "distinct fs \<Longrightarrow>
   distinct (map fst (concat (map (\<lambda>f. case h f of None \<Rightarrow> [] | Some v \<Rightarrow> [(f, v)]) fs)))"
proof (induction fs)
  case Nil
  show ?case by simp
next
  case (Cons f fs)
  have "fst ` set (concat (map (\<lambda>f. case h f of None \<Rightarrow> [] | Some v \<Rightarrow> [(f, v)]) fs)) \<subseteq> set fs"
    by (auto simp: optional_entries_keys)
  with Cons show ?case
    by (auto split: option.splits)
qed

lemma lightweightFields_distinct:
  "distinct lightweightFields" "js ''listId'' \<notin> set lightweightFields"
  by (simp_all add: lightweightFields_def js_def)

lemma lightweightFields_set:
  "set lightweightFields =
     {js ''id'', js ''title'', js ''status'', js ''importance'', js ''dueDateTime''}"
  by (simp add: lightweightFields_def)

lemma lightweight_entry:
  "\<exists>kvs. lightweight m = JObj kvs \<and> distinct (map fst kvs)
     \<and> map_of kvs (js ''listId'') = Some (JStr (ft_listId m))
     \<and> map_of kvs (js ''id'') = getProp (ft_task m) (js ''id'')
     \<and> map_of kvs (js ''title'') = getProp (ft_task m) (js ''title'')
     \<and> map_of kvs (js ''status'') = getProp (ft_task m) (js ''status'')
     \<and> map_of kvs (js ''importance'') = getProp (ft_task m) (js ''importance'')
     \<and> map_of kvs (js ''dueDateTime'') = getProp (ft_task m) (js ''dueDateTime'')
     \<and> fst ` set kvs =
           insert (js ''listId'')
             {f \<in> {js ''id'', js ''title'', js ''status'', js ''importance'', js ''dueDateTime''}.
                getProp (ft_task m) f \<noteq> None}"
proof -
  let ?opt = "concat (map (\<lambda>field. case getProp (ft_task m) field of
                                   None \<Rightarrow> [] | Some v \<Rightarrow> [(field, v)]) lightweightFields)"
  let ?kvs = "(js ''listId'', JStr (ft_listId m)) # ?opt"
  have keys: "fst ` set ?opt = {f \<in> set lightweightFields. getProp (ft_task m) f \<noteq> None}"
    by (rule optional_entries_keys)
  have d: "distinct (map fst ?opt)"
    by (rule optional_entries_distinct) (rule lightweightFields_distinct)
  have 1: "lightweight m = JObj ?kvs"
    by (simp add: lightweight_def)
  have 2: "distinct (map fst ?kvs)"
    using d keys lightweightFields_distinct(2) by (auto simp del: set_concat)
  have 3: "map_of ?kvs (js ''listId'') = Some (JStr (ft_listId m))"
    by simp
  have 4: "map_of ?kvs f = getProp (ft_task m) f" if "f \<in> set lightweightFields" for f
    using that lightweightFields_distinct
    by (auto simp: optional_entries_map_of simp del: set_concat)
  have 5: "fst ` set ?kvs =
      insert (js ''listId'')
        {f \<in> {js ''id'', js ''title'', js ''status'', js ''importance'', js ''dueDateTime''}.
           getProp (ft_task m) f \<noteq> None}"
    using keys unfolding lightweightFields_set by (simp del: set_concat)
  have 6: "map_of ?kvs (js ''id'') = getProp (ft_task m) (js ''id'')"
    "map_of ?kvs (js ''title'') = getProp (ft_task m) (js ''title'')"
    "map_of ?kvs (js ''status'') = getProp (ft_task m) (js ''status'')"
    "map_of ?kvs (js ''importance'') = getProp (ft_task m) (js ''importance'')"
    "map_of ?kvs (js ''dueDateTime'') = getProp (ft_task m) (js ''dueDateTime'')"
    by (rule 4, simp add: lightweightFields_set)+
  from 1 2 3 5 6 show ?thesis by blast
qed

text \<open>
  C10. Whenever the find operation answers with a partial-match response, its \<open>matches\<close>
  correspond, one to one and in order, to the matches the search loop collected. The entry of
  a match is an object with distinct keys. It holds \<open>listId\<close> with the list id of the match.
  For each of \<open>id\<close>, \<open>title\<close>, \<open>status\<close>, \<open>importance\<close> and \<open>dueDateTime\<close> it holds the value the
  matched task has for it when the task defines it, and does not have the key when the task
  leaves it undefined. It has no other key.
\<close>

theorem C10_partial_entries:
  assumes "findTodoTask env params s = (r, s')"
    and "getProp (tr_payload r) (js ''matchType'') = Some (JStr (js ''partial''))"
  shows "\<exists>listIds s1 allMatches entries.
           listsToSearch env params s = (Inr listIds, s1)
           \<and> searchLists env (fp_title params) (searchFilter params) listIds [] s1 = (allMatches, None, s')
           \<and> getProp (tr_payload r) (js ''matches'') = Some (JArr entries)
           \<and> list_all2 (\<lambda>m entry. \<exists>kvs.
                 entry = JObj kvs \<and> distinct (map fst kvs)
                 \<and> map_of kvs (js ''listId'') = Some (JStr (ft_listId m))
                 \<and> map_of kvs (js ''id'') = getProp (ft_task m) (js ''id'')
                 \<and> map_of kvs (js ''title'') = getProp (ft_task m) (js ''title'')
                 \<and> map_of kvs (js ''status'') = getProp (ft_task m) (js ''status'')
                 \<and> map_of kvs (js ''importance'') = getProp (ft_task m) (js ''importance'')
                 \<and> map_of kvs (js ''dueDateTime'') = getProp (ft_task m) (js ''dueDateTime'')
                 \<and> fst ` set kvs =
                       insert (js ''listId'')
                         {f \<in> {js ''id'', js ''title'', js ''status'', js ''importance'',
                                js ''dueDateTime''}. getProp (ft_task m) f \<noteq> None})
               allMatches entries"
proof -
  obtain x s1 where l: "listsToSearch env params s = (x, s1)"
    by (cases "listsToSearch env params s")
  show ?thesis
  proof (cases x)
    case (Inl e)
    with l assms show ?thesis
      by (auto simp: findTodoTask_def key_simps)
  next
    case (Inr listIds)
    obtain allMatches ex s2 where
      sl: "searchLists env (fp_title params) (searchFilter params) listIds [] s1 = (allMatches, ex, s2)"
      by (cases "searchLists env (fp_title params) (searchFilter params) listIds [] s1") auto
    from l Inr sl assms have ex: "ex = None" "s' = s2"
      and m: "getProp (tr_payload r) (js ''matches'') = Some (JArr (map lightweight allMatches))"
      by (auto simp: findTodoTask_def key_simps split: option.splits if_splits)
    have "list_all2 (\<lambda>m entry. \<exists>kvs.
                 entry = JObj kvs \<and> distinct (map fst kvs)
                 \<and> map_of kvs (js ''listId'') = Some (JStr (ft_listId m))
                 \<and> map_of kvs (js ''id'') = getProp (ft_task m) (js ''id'')
                 \<and> map_of kvs (js ''title'') = getProp (ft_task m) (js ''title'')
                 \<and> map_of kvs (js ''status'') = getProp (ft_task m) (js ''status'')
                 \<and> map_of kvs (js ''importance'') = getProp (ft_task m) (js ''importance'')
                 \<and> map_of kvs (js ''dueDateTime'') = getProp (ft_task m) (js ''dueDateTime'')
                 \<and> fst ` set kvs =
                       insert (js ''listId'')
                         {f \<in> {js ''id'', js ''title'', js ''status'', js ''importance'',
                                js ''dueDateTime''}. getProp (ft_task m) f \<noteq> None})
               allMatches (map lightweight allMatches)"
      unfolding list_all2_map2 list_all2_same using lightweight_entry by blast
    with l Inr sl ex m show ?thesis
      by blast
  qed
qed

text \<open>
  C10 on the concrete search where the first list holds \<open>older\<close> and \<open>later\<close> and no list holds
  the title asked for. The entry of \<open>older\<close> has its \<open>id\<close>, \<open>title\<close>, \<open>status\<close> and \<open>importance\<close>,
  no \<open>dueDateTime\<close> and not the \<open>createdDateTime\<close> of the task; the entry of \<open>later\<close> has its
  \<open>title\<close> and \<open>dueDateTime\<close> only.
\<close>

lemma find_env1_partial:
  "findTodoTask (env1 [older, later] [] []) params1 (0, []) =
     (\<lparr>tr_payload = JObj [(js ''success'', JBool True),
                           (js ''matchType'', JStr (js ''partial'')),
                           (js ''message'', JStr (js ''No exact match for '' @ [34] @
                              js ''Tapped Hole'' @ [34] @ js ''. Found '' @
                              decimal 2 @ js '' partial match(es):'')),
                           (js ''matches'', JArr [lightweight \<lparr>ft_task = older, ft_listId = js ''A''\<rparr>,
                                                  lightweight \<lparr>ft_task = later, ft_listId = js ''A''\<rparr>])],
       tr_isError = False\<rparr>,
      (4, [GET (js ''/me/todo/lists''),
           tasksRequest (js ''A'') (searchFilter params1),
           tasksRequest (js ''B'') (searchFilter params1),
           tasksRequest (js ''C'') (searchFilter params1)]))"
  by (simp add: findTodoTask_def listsToSearch1 searchList_def fetch_env1 env1_simps title_simps
      params1_simps Let_def numeral_2_eq_2)

theorem C10_partial_entries_witness:
  "getProp (tr_payload (fst (findTodoTask (env1 [older, later] [] []) params1 (0, []))))
       (js ''matchType'') = Some (JStr (js ''partial''))
   \<and> getProp (tr_payload (fst (findTodoTask (env1 [older, later] [] []) params1 (0, []))))
       (js ''matches'') =
       Some (JArr [JObj [(js ''listId'', JStr (js ''A'')), (js ''id'', JStr (js ''5'')),
                         (js ''title'', JStr (js ''Tapped Hole (old)'')),
                         (js ''status'', JStr (js ''notStarted'')),
                         (js ''importance'', JStr (js ''high''))],
                   JObj [(js ''listId'', JStr (js ''A'')),
                         (js ''title'', JStr (js ''Tapped Hole 2'')),
                         (js ''dueDateTime'', JObj [(js ''dateTime'', JStr (js ''2026-03-01T00:00:00'')),
                                                    (js ''timeZone'', JStr (js ''UTC''))])]])"
proof -
  let ?env = "env1 [older, later] [] []"
  have h1: "findTodoTask ?env params1 (0, []) =
      (fst (findTodoTask ?env params1 (0, [])), snd (findTodoTask ?env params1 (0, [])))"
    by simp
  have h2: "getProp (tr_payload (fst (findTodoTask ?env params1 (0, [])))) (js ''matchType'') =
     Some (JStr (js ''partial''))"
    by (simp add: find_env1_partial key_simps)
  have l: "lightweight \<lparr>ft_task = older, ft_listId = js ''A''\<rparr> =
      JObj [(js ''listId'', JStr (js ''A'')), (js ''id'', JStr (js ''5'')),
            (js ''title'', JStr (js ''Tapped Hole (old)'')),
            (js ''status'', JStr (js ''notStarted'')),
            (js ''importance'', JStr (js ''high''))]"
    "lightweight \<lparr>ft_task = later, ft_listId = js ''A''\<rparr> =
      JObj [(js ''listId'', JStr (js ''A'')),
            (js ''title'', JStr (js ''Tapped Hole 2'')),
            (js ''dueDateTime'', JObj [(js ''dateTime'', JStr (js ''2026-03-01T00:00:00'')),
                                       (js ''timeZone'', JStr (js ''UTC''))])]"
    by (simp_all add: lightweight_def lightweightFields_def older_def later_def js_def)
  have m: "getProp (tr_payload (fst (findTodoTask ?env params1 (0, [])))) (js ''matches'') =
      Some (JArr [lightweight \<lparr>ft_task = older, ft_listId = js ''A''\<rparr>,
                  lightweight \<lparr>ft_task = later, ft_listId = js ''A''\<rparr>])"
    by (simp add: find_env1_partial key_simps)
  from C10_partial_entries [OF h1 h2] h2 m l
  show ?thesis by simp
qed

section \<open>Stable sorting\<close>

lemma mset_insert_by: "mset (insert_by cmp x ys) = add_mset x (mset ys)"
  by (induction ys) simp_all

lemma mset_sort_by: "mset (sort_by cmp xs) = mset xs"
  by (induction xs) (simp_all add: sort_by_def mset_insert_by)

lemma length_sort_by: "length (sort_by cmp xs) = length xs"
  using mset_sort_by [of cmp xs] by (metis size_mset)

lemma set_insert_by: "set (insert_by cmp x ys) = insert x (set ys)"
  by (induction ys) auto

lemma sorted_insert_by:
  assumes "consistent cmp" and "sorted_wrt (\<lambda>a b. cmp a b \<le> 0) ys"
  shows "sorted_wrt (\<lambda>a b. cmp a b \<le> 0) (insert_by cmp x ys)"
  using assms(2)
proof (induction ys)
  case Nil
  show ?case by simp
next
  case (Cons y ys)
  show ?case
  proof (cases "cmp x y \<le> 0")
    case True
    have "\<forall>z\<in>set ys. cmp x z \<le> 0"
    proof
      fix z assume "z \<in> set ys"
      with Cons.prems have "cmp y z \<le> 0" by simp
      with True assms(1) show "cmp x z \<le> 0"
        unfolding consistent_def by blast
    qed
    with True Cons.prems show ?thesis by simp
  next
    case False
    then have "0 < cmp x y" by simp
    with assms(1) have "cmp y x < 0"
      unfolding consistent_def by blast
    with False Cons show ?thesis
      by (auto simp: set_insert_by)
  qed
qed

lemma sorted_sort_by:
  "consistent cmp \<Longrightarrow> sorted_wrt (\<lambda>a b. cmp a b \<le> 0) (sort_by cmp xs)"
proof (induction xs)
  case Nil
  show ?case by (simp add: sort_by_def)
next
  case (Cons x xs)
  then have "sorted_wrt (\<lambda>a b. cmp a b \<le> 0) (foldr (insert_by cmp) xs [])"
    by (simp add: sort_by_def)
  from sorted_insert_by [OF Cons.prems this] show ?case
    by (simp add: sort_by_def)
qed

lemma consistent_sym: "consistent cmp \<Longrightarrow> cmp a b = 0 \<Longrightarrow> cmp b a = 0"
  unfolding consistent_def
  by (metis less_irrefl linorder_neqE_linordered_idom)

lemma filter_insert_by:
  assumes "consistent cmp"
  shows "filter (\<lambda>y. cmp h (f y) = 0) (insert_by (\<lambda>a b. cmp (f a) (f b)) x ys) =
           (if cmp h (f x) = 0 then x # filter (\<lambda>y. cmp h (f y) = 0) ys
            else filter (\<lambda>y. cmp h (f y) = 0) ys)"
proof (induction ys)
  case Nil
  show ?case by simp
next
  case (Cons y ys)
  show ?case
  proof (cases "cmp (f x) (f y) \<le> 0")
    case True
    then show ?thesis by simp
  next
    case False
    have "\<not> (cmp h (f x) = 0 \<and> cmp h (f y) = 0)"
    proof
      assume eq: "cmp h (f x) = 0 \<and> cmp h (f y) = 0"
      then have "cmp (f x) h = 0" using consistent_sym [OF assms] by blast
      with eq assms have "cmp (f x) (f y) \<le> 0"
        unfolding consistent_def by (metis order_refl)
      with False show False ..
    qed
    with False Cons show ?thesis by auto
  qed
qed

lemma stable_sort_by:
  "consistent cmp \<Longrightarrow>
   filter (\<lambda>y. cmp h (f y) = 0) (sort_by (\<lambda>a b. cmp (f a) (f b)) xs) =
     filter (\<lambda>y. cmp h (f y) = 0) xs"
  by (induction xs) (simp_all add: sort_by_def filter_insert_by)

section \<open>The stages of the conversion\<close>

lemma createChecklistItems_issueAll:
  "issueAll env (map (checklistRequest l t) items) s = (outs, s') \<Longrightarrow>
   createChecklistItems env l t items s =
     (map (\<lambda>(item, r). \<lparr>cr_displayName = ci_title item, cr_isChecked = ci_isChecked item,
                          cr_success = (case r of Inl e \<Rightarrow> False | Inr x \<Rightarrow> True)\<rparr>) (zip items outs), s')"
proof (induction items arbitrary: s outs s')
  case Nil
  then show ?case by simp
next
  case (Cons item items)
  obtain r s1 where i: "issue env (checklistRequest l t item) s = (r, s1)"
    by (cases "issue env (checklistRequest l t item) s")
  obtain rs s2 where a: "issueAll env (map (checklistRequest l t) items) s1 = (rs, s2)"
    by (cases "issueAll env (map (checklistRequest l t) items) s1")
  from Cons.prems i a have "outs = r # rs" "s' = s2" by simp_all
  with Cons.IH [OF a] i show ?case by simp
qed

lemma count_successes:
  "length items = length outs \<Longrightarrow>
   length (filter cr_success
     (map (\<lambda>(item, r). \<lparr>cr_displayName = ci_title item, cr_isChecked = ci_isChecked item,
                          cr_success = (case r of Inl e \<Rightarrow> False | Inr x \<Rightarrow> True)\<rparr>) (zip items outs)))
   = length outs - length (filter isl outs)"
proof (induction items outs rule: list_induct2)
  case Nil
  show ?case by simp
next
  case (Cons item items r outs)
  have "length (filter isl outs) \<le> length outs" by simp
  with Cons show ?case
    by (cases r) (simp_all add: Suc_diff_le)
qed

lemma markComplete_log: "markComplete env i s = (st, s') \<Longrightarrow> \<exists>more. snd s' = snd s @ more"
  by (auto simp: markComplete_def split: prod.splits sum.splits if_splits
      dest!: fetch_log issue_log)

lemma dispositionStage_log:
  "dispositionStage env params s = (st, s') \<Longrightarrow> \<exists>more. snd s' = snd s @ more"
  by (auto simp: dispositionStage_def split: if_splits dest: markComplete_log)

lemma result_simps:
  "js ''todoTask'' \<noteq> js ''success''" "js ''todoTask'' \<noteq> js ''message''"
  "js ''checklistItems'' \<noteq> js ''id''" "js ''checklistItems'' \<noteq> js ''title''"
  "js ''checklistItems'' \<noteq> js ''listId''"
  "js ''plannerTask'' \<noteq> js ''success''" "js ''plannerTask'' \<noteq> js ''message''"
  "js ''plannerTask'' \<noteq> js ''todoTask''"
  "js ''status'' \<noteq> js ''id''" "js ''status'' \<noteq> js ''title''"
  "js ''completed'' \<noteq> js ''failed_to_complete''"
  by (simp_all add: js_def)

lemma consistent_key: "consistent cmp \<Longrightarrow> consistent (\<lambda>a b. cmp (f a) (f b))"
  unfolding consistent_def by blast

lemma convert_stages:
  assumes "prepare env params s = (Inr cv, s4)"
    and "checklistStage env cv s4 = (checklistResults, s5)"
    and "dispositionStage env params s5 = (plannerStatus, s6)"
  shows "convertPlannerTaskToTodo env params s =
           (\<lparr>tr_payload = conversionResult cv checklistResults plannerStatus, tr_isError = False\<rparr>, s6)"
  using assms by (simp add: convertPlannerTaskToTodo_def complete_def)

lemma checklistStage_log:
  assumes "checklistStage env cv s4 = (checklistResults, s5)"
  shows "snd s5 = snd s4 @ map (checklistRequest (cv_listId cv) (tt_id (cv_createdTodoTask cv)))
                           (sortedItems (localeCompare env) (checklistOf cv))"
proof -
  let ?rqs = "map (checklistRequest (cv_listId cv) (tt_id (cv_createdTodoTask cv)))
                (sortedItems (localeCompare env) (checklistOf cv))"
  obtain outs s5' where a: "issueAll env ?rqs s4 = (outs, s5')"
    by (cases "issueAll env ?rqs s4")
  from createChecklistItems_issueAll [OF a] assms have "s5 = s5'"
    by (simp add: checklistStage_def)
  with issueAll_log [OF a] show ?thesis by simp
qed

lemma markComplete_outcome:
  assumes "markComplete env i s5 = (status, s6)"
  shows "\<exists>further. snd s6 = snd s5 @ refetchRequest i # further \<and> markOutcome env i s5 status further"
proof -
  obtain x sf where f: "fetch env (parseJson env) (refetchRequest i) s5 = (x, sf)"
    by (cases "fetch env (parseJson env) (refetchRequest i) s5")
  note lf = fetch_log [OF f]
  show ?thesis
  proof (cases x)
    case (Inl e)
    with assms f have "status = js ''failed_to_complete''" "s6 = sf"
      by (simp_all add: markComplete_def)
    with Inl f lf have "snd s6 = snd s5 @ refetchRequest i # [] \<and> markOutcome env i s5 status []"
      by (simp add: markOutcome_def)
    then show ?thesis ..
  next
    case (Inr taskData)
    show ?thesis
    proof (cases "taskData = JNull")
      case True
      with Inr assms f have "status = js ''failed_to_complete''" "s6 = sf"
        by (simp_all add: markComplete_def)
      with True Inr f lf have "snd s6 = snd s5 @ refetchRequest i # [] \<and> markOutcome env i s5 status []"
        by (simp add: markOutcome_def)
      then show ?thesis ..
    next
      case False
      let ?patch = "patchRequest i (etagOf taskData)"
      obtain y sp where p: "issue env ?patch sf = (y, sp)"
        by (cases "issue env ?patch sf")
      from issue_log [OF p] lf have lp: "snd sp = snd s5 @ refetchRequest i # [?patch]"
        by simp
      from False Inr assms f p have s6: "s6 = sp"
        and st: "status = (case y of Inl e \<Rightarrow> js ''failed_to_complete'' | Inr x \<Rightarrow> js ''completed'')"
        by (simp_all add: markComplete_def split: sum.splits)
      have "markOutcome env i s5 status [?patch]"
        unfolding markOutcome_def f Inr using False p st
        by (simp split: sum.splits)
      with lp s6 have "snd s6 = snd s5 @ refetchRequest i # [?patch] \<and> markOutcome env i s5 status [?patch]"
        by simp
      then show ?thesis ..
    qed
  qed
qed

text \<open>The conversion of the concrete inputs, stage by stage.\<close>

lemma text_simps:
  "js ''task'' \<noteq> js ''details''" "js ''details'' \<noteq> js ''task''"
  "js ''created'' \<noteq> js ''task''" "js ''created'' \<noteq> js ''details''"
  "js ''etag'' \<noteq> js ''task''" "js ''etag'' \<noteq> js ''details''" "js ''etag'' \<noteq> js ''created''"
  "js ''L'' \<noteq> []"
  by (simp_all add: js_def)

lemma prepare0:
  "0 \<notin> set failing \<Longrightarrow> 1 \<notin> set failing \<Longrightarrow> 2 \<notin> set failing \<Longrightarrow>
   prepare (env0 compare failing) params0 (0, []) = (Inr cv0, (3, log3))"
  by (simp add: prepare_def fetch_def issue_def responseText_def env0_def params0_def
      targetListId_def cv0_def log3_def text_simps Let_def)

lemma consistent_ordinalCompare: "consistent ordinalCompare"
  unfolding consistent_def ordinalCompare_def by auto

lemma collate_le:
  "(collate a b \<le> 0) =
     (map lowerCase a < map lowerCase b \<or> map lowerCase a = map lowerCase b \<and> b \<le> a)"
  unfolding collate_def ordinalCompare_def by auto

lemma collate_less:
  "(collate a b < 0) =
     (map lowerCase a < map lowerCase b \<or> map lowerCase a = map lowerCase b \<and> b < a)"
  unfolding collate_def ordinalCompare_def by auto

lemma collate_greater:
  "(0 < collate a b) =
     (map lowerCase b < map lowerCase a \<or> map lowerCase a = map lowerCase b \<and> a < b)"
  unfolding collate_def ordinalCompare_def by auto

lemma consistent_collate: "consistent collate"
proof -
  have anti: "(collate a b < 0) = (0 < collate b a)" for a b
    unfolding collate_less collate_greater by auto
  have trans: "collate a c \<le> 0" if "collate a b \<le> 0" "collate b c \<le> 0" for a b c
    using that unfolding collate_le by auto
  from anti trans show ?thesis
    unfolding consistent_def by blast
qed

lemma sortedItems_collate: "sortedItems collate (checklistOf cv0) = [tap, drill, mark]"
  by (simp add: sortedItems_def checklistOf_def cv0_def details0_def sort_by_def drill_def tap_def
      mark_def orderOf_def collate_def ordinalCompare_def lowerCase_def js_def)

lemma sortedItems_ordinal: "sortedItems ordinalCompare (checklistOf cv0) = [drill, tap, mark]"
  by (simp add: sortedItems_def checklistOf_def cv0_def details0_def sort_by_def drill_def tap_def
      mark_def orderOf_def ordinalCompare_def js_def)

lemma decimal_digit: "n < 10 \<Longrightarrow> decimal n = [of_nat (48 + n)]"
  by (simp add: decimal.simps)

lemma cv0_simps:
  "cv_listId cv0 = js ''L''" "tt_id (cv_createdTodoTask cv0) = js ''T1''"
  "cv_plannerTask cv0 = task0" "tt_title (cv_createdTodoTask cv0) = js ''[Planner] Order parts''"
  by (simp_all add: cv0_def todo0_def)

lemma issueAll0:
  "issueAll (env0 ordinalCompare [3])
     (map (checklistRequest (cv_listId cv0) (tt_id (cv_createdTodoTask cv0)))
        (sortedItems (localeCompare (env0 ordinalCompare [3])) (checklistOf cv0))) (3, log3) =
   ([Inl (Error (js ''503'')), Inr [(js ''text'', js ''etag'')], Inr [(js ''text'', js ''etag'')]],
    (6, log6))"
proof -
  have "localeCompare (env0 ordinalCompare [3]) = ordinalCompare"
    by (simp add: env0_def)
  then show ?thesis
    by (simp add: sortedItems_ordinal issue_def env0_def cv0_simps log6_def)
qed

lemma checklistStage0:
  "checklistStage (env0 ordinalCompare failing) cv0 (3, log3) = (results0 failing, (6, log6))"
proof -
  have "localeCompare (env0 ordinalCompare failing) = ordinalCompare"
    by (simp add: env0_def)
  then show ?thesis
    by (simp add: checklistStage_def sortedItems_ordinal issue_def env0_def cv0_simps log6_def
        results0_def drill_def tap_def mark_def)
qed

lemma checklistStage_collate:
  "checklistStage (env0 collate []) cv0 (3, log3) =
     (map (\<lambda>item. \<lparr>cr_displayName = ci_title item, cr_isChecked = ci_isChecked item,
                      cr_success = True\<rparr>) [tap, drill, mark],
      (6, log3 @ map (checklistRequest (js ''L'') (js ''T1'')) [tap, drill, mark]))"
proof -
  have "localeCompare (env0 collate []) = collate"
    by (simp add: env0_def)
  then show ?thesis
    by (simp add: checklistStage_def sortedItems_collate issue_def env0_def cv0_simps)
qed

lemma dispositionStage0:
  "dispositionStage (env0 compare []) params0 (6, l) =
     (js ''completed'',
      (8, l @ [refetchRequest (js ''t1''), patchRequest (js ''t1'') (JStr (js ''W/1''))]))"
proof -
  have "js ''W/1'' \<noteq> []"
    by (simp add: js_def)
  then show ?thesis
    by (simp add: dispositionStage_def markComplete_def fetch_def issue_def responseText_def
        env0_def params0_def etagOf_def text_simps)
qed

lemma fails0: "0 \<notin> set [3::int]" "1 \<notin> set [3::int]" "2 \<notin> set [3::int]"
  by simp_all

section \<open>Checklist items\<close>

text \<open>
  C3. Let the creation of the destination task have succeeded, and let \<open>outcomes\<close> be what the
  service answers when the creation requests of all the checklist items of the source details
  are issued one after the other, whatever each one returns. Then the conversion issues exactly
  these requests, one for each of the N items, right after the creation of the task; its
  result reports \<open>success: true\<close> and no error flag; and the checklist accounting of the result is
  recorded in a list of N results of which N - M are successes, where M is the number of
  failed attempts, and reported as \<open>(N-M)/N created\<close>, which the code writes as \<open>none\<close> when
  there is no item at all.
\<close>

theorem C3_checklist_partial_failure:
  assumes "prepare env params s = (Inr cv, s4)"
    and "issueAll env (map (checklistRequest (cv_listId cv) (tt_id (cv_createdTodoTask cv)))
                        (sortedItems (localeCompare env) (checklistOf cv))) s4 = (outcomes, s5)"
    and "convertPlannerTaskToTodo env params s = (r, s')"
  shows "length outcomes = length (checklistOf cv)
    \<and> (\<exists>marking. snd s' = snd s4 @
          map (checklistRequest (cv_listId cv) (tt_id (cv_createdTodoTask cv)))
            (sortedItems (localeCompare env) (checklistOf cv)) @ marking)
    \<and> getProp (tr_payload r) (js ''success'') = Some (JBool True) \<and> \<not> tr_isError r
    \<and> (\<exists>checklistResults.
          checklistStage env cv s4 = (checklistResults, s5)
          \<and> length checklistResults = length (checklistOf cv)
          \<and> length (filter cr_success checklistResults) =
              length (checklistOf cv) - length (filter isl outcomes))
    \<and> (\<exists>todoTask. getProp (tr_payload r) (js ''todoTask'') = Some todoTask
          \<and> getProp todoTask (js ''checklistItems'') =
              Some (JStr (if length (checklistOf cv) = 0 then js ''none''
                          else decimal (length (checklistOf cv) - length (filter isl outcomes)) @
                               js ''/'' @ decimal (length (checklistOf cv)) @ js '' created'')))"
proof -
  let ?items = "sortedItems (localeCompare env) (checklistOf cv)"
  let ?rqs = "map (checklistRequest (cv_listId cv) (tt_id (cv_createdTodoTask cv))) ?items"
  let ?results = "map (\<lambda>(item, r). \<lparr>cr_displayName = ci_title item, cr_isChecked = ci_isChecked item,
                          cr_success = (case r of Inl e \<Rightarrow> False | Inr x \<Rightarrow> True)\<rparr>) (zip ?items outcomes)"
  have n: "length ?items = length (checklistOf cv)"
    by (simp add: sortedItems_def length_sort_by)
  from issueAll_log [OF assms(2)] have l5: "snd s5 = snd s4 @ ?rqs" and len: "length outcomes = length ?items"
    by simp_all
  have stage: "checklistStage env cv s4 = (?results, s5)"
    unfolding checklistStage_def by (rule createChecklistItems_issueAll [OF assms(2)])
  obtain st s6 where d: "dispositionStage env params s5 = (st, s6)"
    by (cases "dispositionStage env params s5")
  from dispositionStage_log [OF d] obtain marking where l6: "snd s6 = snd s5 @ marking" ..
  from convert_stages [OF assms(1) stage d] assms(3)
  have r: "r = \<lparr>tr_payload = conversionResult cv ?results st, tr_isError = False\<rparr>"
    and s': "s' = s6"
    by simp_all
  have total: "length ?results = length (checklistOf cv)"
    using len n by simp
  have created: "length (filter cr_success ?results) = length (checklistOf cv) - length (filter isl outcomes)"
    using count_successes [of ?items outcomes] len n by simp
  have summary: "checklistSummary ?results =
      (if length (checklistOf cv) = 0 then js ''none''
       else decimal (length (checklistOf cv) - length (filter isl outcomes)) @
            js ''/'' @ decimal (length (checklistOf cv)) @ js '' created'')"
    unfolding checklistSummary_def Let_def created total by simp
  have 1: "length outcomes = length (checklistOf cv)"
    using len n by simp
  have 2: "\<exists>marking. snd s' = snd s4 @ ?rqs @ marking"
    using l5 l6 s' by simp
  have 3: "getProp (tr_payload r) (js ''success'') = Some (JBool True)"
    by (simp add: r conversionResult_def)
  have 4: "\<not> tr_isError r"
    by (simp add: r)
  have 5: "\<exists>checklistResults.
          checklistStage env cv s4 = (checklistResults, s5)
          \<and> length checklistResults = length (checklistOf cv)
          \<and> length (filter cr_success checklistResults) =
              length (checklistOf cv) - length (filter isl outcomes)"
    using stage total created by (intro exI [of _ ?results] conjI)
  have todo: "getProp (tr_payload r) (js ''todoTask'') =
      Some (JObj [(js ''id'', JStr (tt_id (cv_createdTodoTask cv))),
                  (js ''title'', JStr (tt_title (cv_createdTodoTask cv))),
                  (js ''listId'', JStr (cv_listId cv)),
                  (js ''checklistItems'', JStr (checklistSummary ?results))])"
    by (simp add: r conversionResult_def result_simps)
  have items: "getProp (JObj [(js ''id'', JStr (tt_id (cv_createdTodoTask cv))),
                  (js ''title'', JStr (tt_title (cv_createdTodoTask cv))),
                  (js ''listId'', JStr (cv_listId cv)),
                  (js ''checklistItems'', JStr (checklistSummary ?results))]) (js ''checklistItems'')
      = Some (JStr (checklistSummary ?results))"
    by (simp add: result_simps)
  have 6: "\<exists>todoTask. getProp (tr_payload r) (js ''todoTask'') = Some todoTask
          \<and> getProp todoTask (js ''checklistItems'') =
              Some (JStr (if length (checklistOf cv) = 0 then js ''none''
                          else decimal (length (checklistOf cv) - length (filter isl outcomes)) @
                               js ''/'' @ decimal (length (checklistOf cv)) @ js '' created''))"
    using todo items unfolding summary by blast
  show ?thesis
    by (intro conjI) (fact 1 2 3 4 5 6)+
qed

text \<open>
  C3 on the conversion of the concrete inputs, where the first of the three checklist requests
  fails: the result reports success and \<open>2/3 created\<close>.
\<close>

theorem C3_checklist_partial_failure_witness:
  "prepare (env0 ordinalCompare [3]) params0 (0, []) = (Inr cv0, (3, log3))
   \<and> length (checklistOf cv0) = 3
   \<and> getProp (tr_payload (fst (convertPlannerTaskToTodo (env0 ordinalCompare [3]) params0 (0, []))))
         (js ''success'') = Some (JBool True)
   \<and> (\<exists>todoTask.
         getProp (tr_payload (fst (convertPlannerTaskToTodo (env0 ordinalCompare [3]) params0 (0, []))))
           (js ''todoTask'') = Some todoTask
         \<and> getProp todoTask (js ''checklistItems'') = Some (JStr (js ''2/3 created'')))"
proof -
  have h3: "convertPlannerTaskToTodo (env0 ordinalCompare [3]) params0 (0, []) =
      (fst (convertPlannerTaskToTodo (env0 ordinalCompare [3]) params0 (0, [])),
       snd (convertPlannerTaskToTodo (env0 ordinalCompare [3]) params0 (0, [])))"
    by simp
  have n: "length (checklistOf cv0) = 3"
    by (simp add: checklistOf_def cv0_def details0_def)
  have d: "decimal (3 - Suc 0) @ js ''/'' @ decimal 3 @ js '' created'' = js ''2/3 created''"
    by (simp add: decimal_digit js_def)
  from C3_checklist_partial_failure [OF prepare0 [OF fails0(1-3)] issueAll0 h3] n d
    prepare0 [OF fails0(1-3), of ordinalCompare]
  show ?thesis
    by simp
qed

section \<open>The order of the checklist requests\<close>

text \<open>
  What the code does on every host whose \<open>localeCompare\<close> is a consistent comparator: the
  creation requests of the items are issued, right after the creation of the task, in the order
  \<open>sortedItems\<close> gives them. This is a rearrangement of the items of the checklist that ascends
  in the host's \<open>localeCompare\<close> order of the order hints, an item without a hint counting as
  an item with the empty hint, and items whose hints compare as equal keep the order in which
  the checklist iterates them. It is the ascending lexicographic order of the hints when the
  host's comparison agrees with the lexicographic order of strings.
\<close>

lemma requests_in_localeCompare_order:
  assumes "consistent (localeCompare env)"
    and "prepare env params s = (Inr cv, s4)"
    and "convertPlannerTaskToTodo env params s = (r, s')"
  shows "(\<exists>marking. snd s' = snd s4 @
            map (checklistRequest (cv_listId cv) (tt_id (cv_createdTodoTask cv)))
              (sortedItems (localeCompare env) (checklistOf cv)) @ marking)
    \<and> mset (sortedItems (localeCompare env) (checklistOf cv)) = mset (map snd (checklistOf cv))
    \<and> sorted_wrt (\<lambda>a b. localeCompare env (orderOf a) (orderOf b) \<le> 0)
         (sortedItems (localeCompare env) (checklistOf cv))
    \<and> (\<forall>h. filter (\<lambda>x. localeCompare env h (orderOf x) = 0)
               (sortedItems (localeCompare env) (checklistOf cv)) =
             filter (\<lambda>x. localeCompare env h (orderOf x) = 0) (map snd (checklistOf cv)))
    \<and> (\<forall>x. ci_orderHint x = None \<longrightarrow> orderOf x = [])
    \<and> ((\<forall>a b. (localeCompare env a b \<le> 0) = (a \<le> b)) \<longrightarrow>
          sorted (map orderOf (sortedItems (localeCompare env) (checklistOf cv))))"
proof -
  let ?cmp = "\<lambda>a b. localeCompare env (orderOf a) (orderOf b)"
  let ?items = "sortedItems (localeCompare env) (checklistOf cv)"
  have c: "consistent ?cmp"
    using assms(1) by (rule consistent_key)
  obtain checklistResults s5 where st: "checklistStage env cv s4 = (checklistResults, s5)"
    by (cases "checklistStage env cv s4")
  obtain plannerStatus s6 where d: "dispositionStage env params s5 = (plannerStatus, s6)"
    by (cases "dispositionStage env params s5")
  from convert_stages [OF assms(2) st d] assms(3) have "s' = s6" by simp
  moreover from dispositionStage_log [OF d] obtain marking where "snd s6 = snd s5 @ marking" ..
  ultimately have 1: "\<exists>marking. snd s' = snd s4 @
      map (checklistRequest (cv_listId cv) (tt_id (cv_createdTodoTask cv))) ?items @ marking"
    using checklistStage_log [OF st] by simp
  have 2: "mset ?items = mset (map snd (checklistOf cv))"
    by (simp add: sortedItems_def mset_sort_by)
  have 3: "sorted_wrt (\<lambda>a b. localeCompare env (orderOf a) (orderOf b) \<le> 0) ?items"
    unfolding sortedItems_def by (rule sorted_sort_by [OF c])
  have 4: "\<forall>h. filter (\<lambda>x. localeCompare env h (orderOf x) = 0) ?items =
               filter (\<lambda>x. localeCompare env h (orderOf x) = 0) (map snd (checklistOf cv))"
    unfolding sortedItems_def by (simp add: stable_sort_by [OF assms(1)])
  have 5: "sorted (map orderOf ?items)" if "\<forall>a b. (localeCompare env a b \<le> 0) = (a \<le> b)"
    using 3 by (simp add: sorted_map that)
  have 6: "\<forall>x. ci_orderHint x = None \<longrightarrow> orderOf x = []"
    by (simp add: orderOf_def)
  from 1 2 3 4 5 6 show ?thesis by blast
qed

text \<open>
  C4. The order hints are meant to be compared as strings, the lower hint first: the source
  sorts the items \<open>by orderHint to maintain order (lower orderHint = higher in list)\<close>. The
  comparison it calls, however, is \<open>localeCompare\<close>, the collation of the host, and that is not
  the lexicographic order of the strings. The conversion of the concrete inputs, whose checklist
  holds the hints \<open>ac\<close>, \<open>Ab\<close>, \<open>ab\<close> in this order, on a host with the collation of two levels
  creates the items in the order of the hints \<open>ab\<close>, \<open>Ab\<close>, \<open>ac\<close>. This is not the ascending
  lexicographic order, in which \<open>Ab\<close> is the least, as the comparison of code units gives it;
  nor is it the lexicographic order that any ordering of the characters induces, since \<open>ab\<close>
  before \<open>Ab\<close> needs \<open>a\<close> before \<open>A\<close>, and \<open>Ab\<close> before \<open>ac\<close> needs \<open>A\<close> before \<open>a\<close>.
\<close>

theorem C4_request_order_defect:
  "map (\<lambda>(key, item). orderOf item) (checklistOf cv0) = [js ''ac'', js ''Ab'', js ''ab'']
   \<and> snd (snd (convertPlannerTaskToTodo (env0 collate []) params0 (0, []))) =
       log3 @ [checklistRequest (js ''L'') (js ''T1'') tap,
               checklistRequest (js ''L'') (js ''T1'') drill,
               checklistRequest (js ''L'') (js ''T1'') mark,
               refetchRequest (js ''t1''),
               patchRequest (js ''t1'') (JStr (js ''W/1''))]
   \<and> map orderOf [tap, drill, mark] = [js ''ab'', js ''Ab'', js ''ac'']
   \<and> \<not> sorted (map orderOf [tap, drill, mark])
   \<and> \<not> (\<exists>r. asym r \<and> sorted_wrt (\<lambda>a b. (a, b) \<in> lexord r) (map orderOf [tap, drill, mark]))
   \<and> snd (snd (convertPlannerTaskToTodo (env0 ordinalCompare []) params0 (0, []))) =
       log3 @ [checklistRequest (js ''L'') (js ''T1'') drill,
               checklistRequest (js ''L'') (js ''T1'') tap,
               checklistRequest (js ''L'') (js ''T1'') mark,
               refetchRequest (js ''t1''),
               patchRequest (js ''t1'') (JStr (js ''W/1''))]
   \<and> sorted (map orderOf [drill, tap, mark])"
proof -
  have p: "prepare (env0 collate []) params0 (0, []) = (Inr cv0, (3, log3))"
    and p': "prepare (env0 ordinalCompare []) params0 (0, []) = (Inr cv0, (3, log3))"
    by (rule prepare0; simp)+
  have 0: "map (\<lambda>(key, item). orderOf item) (checklistOf cv0) = [js ''ac'', js ''Ab'', js ''ab'']"
    by (simp add: checklistOf_def cv0_def details0_def orderOf_def drill_def tap_def mark_def)
  from convert_stages [OF p checklistStage_collate dispositionStage0]
  have 1: "snd (snd (convertPlannerTaskToTodo (env0 collate []) params0 (0, []))) =
       log3 @ [checklistRequest (js ''L'') (js ''T1'') tap,
               checklistRequest (js ''L'') (js ''T1'') drill,
               checklistRequest (js ''L'') (js ''T1'') mark,
               refetchRequest (js ''t1''),
               patchRequest (js ''t1'') (JStr (js ''W/1''))]"
    by simp
  have 2: "map orderOf [tap, drill, mark] = [js ''ab'', js ''Ab'', js ''ac'']"
    by (simp add: orderOf_def drill_def tap_def mark_def)
  have 3: "\<not> sorted (map orderOf [tap, drill, mark])"
    unfolding 2 by (simp add: js_def)
  have 4: "\<not> (\<exists>r. asym r \<and> sorted_wrt (\<lambda>a b. (a, b) \<in> lexord r) (map orderOf [tap, drill, mark]))"
  proof
    assume "\<exists>r. asym r \<and> sorted_wrt (\<lambda>a b. (a, b) \<in> lexord r) (map orderOf [tap, drill, mark])"
    then obtain r :: "(code_unit \<times> code_unit) set" where r: "asym r"
      and "(js ''ab'', js ''Ab'') \<in> lexord r" "(js ''Ab'', js ''ac'') \<in> lexord r"
      unfolding 2 by auto
    then have "(97, 65) \<in> r" "(65, 97) \<in> r"
      by (simp_all add: js_def)
    with r show False
      by (auto dest: asymD)
  qed
  from convert_stages [OF p' checklistStage0 dispositionStage0]
  have 5: "snd (snd (convertPlannerTaskToTodo (env0 ordinalCompare []) params0 (0, []))) =
       log3 @ [checklistRequest (js ''L'') (js ''T1'') drill,
               checklistRequest (js ''L'') (js ''T1'') tap,
               checklistRequest (js ''L'') (js ''T1'') mark,
               refetchRequest (js ''t1''),
               patchRequest (js ''t1'') (JStr (js ''W/1''))]"
    by (simp add: log6_def)
  have 6: "sorted (map orderOf [drill, tap, mark])"
    by (simp add: orderOf_def drill_def tap_def mark_def js_def)
  from 0 1 2 3 4 5 6 show ?thesis
    by (intro conjI)
qed

section \<open>Marking the source task complete\<close>

text \<open>
  C8. Let marking be enabled and the creation of the destination task have succeeded, and let
  \<open>s5\<close> be the run after the checklist stage. Then the conversion next refetches the source
  task (a GET of the task with \<open>includeHeaders\<close>), and what follows is as \<open>markOutcome\<close> says:
  if the refetch returns the task, one further request is issued, the PATCH of the task with
  the body \<open>percentComplete: 100\<close> under the header \<open>If-Match\<close>, whose value is the \<open>_etag\<close> of
  the refetched task, or \<open>*\<close> when that is absent (or falsy); the disposition recorded is
  \<open>completed\<close> when both requests succeed and \<open>failed_to_complete\<close>, a different string, when
  either fails. In every case the result reports \<open>success: true\<close> and no error flag.
\<close>

theorem C8_mark_source_complete:
  assumes "cp_markPlannerComplete params"
    and "prepare env params s = (Inr cv, s4)"
    and "checklistStage env cv s4 = (checklistResults, s5)"
    and "convertPlannerTaskToTodo env params s = (r, s')"
  shows "getProp (tr_payload r) (js ''success'') = Some (JBool True) \<and> \<not> tr_isError r
    \<and> js ''failed_to_complete'' \<noteq> js ''completed''
    \<and> (\<exists>status further.
          getProp (tr_payload r) (js ''plannerTask'') =
            Some (JObj [(js ''id'', JStr (pt_id (cv_plannerTask cv))),
                        (js ''title'', JStr (pt_title (cv_plannerTask cv))),
                        (js ''status'', JStr status)])
          \<and> snd s' = snd s5 @ refetchRequest (cp_plannerTaskId params) # further
          \<and> markOutcome env (cp_plannerTaskId params) s5 status further)
    \<and> refetchRequest (cp_plannerTaskId params) =
          \<lparr>rq_path = js ''/planner/tasks/'' @ cp_plannerTaskId params, rq_method = None,
           rq_body = None, rq_headers = [], rq_includeHeaders = True\<rparr>
    \<and> patchRequest (cp_plannerTaskId params) etag =
          \<lparr>rq_path = js ''/planner/tasks/'' @ cp_plannerTaskId params,
           rq_method = Some (js ''PATCH''),
           rq_body = Some (JObj [(js ''percentComplete'', JNum 100)]),
           rq_headers = [(js ''If-Match'', etag)], rq_includeHeaders = False\<rparr>
    \<and> etagOf data =
          (case getProp data (js ''_etag'') of
             None \<Rightarrow> JStr (js ''*'')
           | Some v \<Rightarrow> if truthy v then v else JStr (js ''*''))"
proof -
  let ?id = "cp_plannerTaskId params"
  obtain status s6 where d: "dispositionStage env params s5 = (status, s6)"
    by (cases "dispositionStage env params s5")
  from convert_stages [OF assms(2,3) d] assms(4)
  have r: "r = \<lparr>tr_payload = conversionResult cv checklistResults status, tr_isError = False\<rparr>"
    and s': "s' = s6"
    by simp_all
  have 1: "getProp (tr_payload r) (js ''success'') = Some (JBool True)"
    by (simp add: r conversionResult_def)
  have noerr: "\<not> tr_isError r"
    by (simp add: r)
  have 2: "js ''failed_to_complete'' \<noteq> js ''completed''"
    by (simp add: js_def)
  have 3: "getProp (tr_payload r) (js ''plannerTask'') =
            Some (JObj [(js ''id'', JStr (pt_id (cv_plannerTask cv))),
                        (js ''title'', JStr (pt_title (cv_plannerTask cv))),
                        (js ''status'', JStr status)])"
    by (simp add: r conversionResult_def result_simps)
  from d assms(1) have m: "markComplete env ?id s5 = (status, s6)"
    by (simp add: dispositionStage_def)
  from markComplete_outcome [OF m] obtain further where
    further: "snd s6 = snd s5 @ refetchRequest ?id # further" "markOutcome env ?id s5 status further"
    by blast
  have 4: "\<exists>status further.
          getProp (tr_payload r) (js ''plannerTask'') =
            Some (JObj [(js ''id'', JStr (pt_id (cv_plannerTask cv))),
                        (js ''title'', JStr (pt_title (cv_plannerTask cv))),
                        (js ''status'', JStr status)])
          \<and> snd s' = snd s5 @ refetchRequest ?id # further
          \<and> markOutcome env ?id s5 status further"
    unfolding s' using 3 further by (intro exI [of _ status] exI [of _ further] conjI)
  have 5: "refetchRequest ?id =
          \<lparr>rq_path = js ''/planner/tasks/'' @ ?id, rq_method = None,
           rq_body = None, rq_headers = [], rq_includeHeaders = True\<rparr>"
    by (simp add: refetchRequest_def)
  have 6: "patchRequest ?id etag =
          \<lparr>rq_path = js ''/planner/tasks/'' @ ?id, rq_method = Some (js ''PATCH''),
           rq_body = Some (JObj [(js ''percentComplete'', JNum 100)]),
           rq_headers = [(js ''If-Match'', etag)], rq_includeHeaders = False\<rparr>"
    by (simp add: patchRequest_def)
  have 7: "etagOf data =
          (case getProp data (js ''_etag'') of
             None \<Rightarrow> JStr (js ''*'')
           | Some v \<Rightarrow> if truthy v then v else JStr (js ''*''))"
    by (simp add: etagOf_def)
  show ?thesis
    by (intro conjI) (fact 1 noerr 2 4 5 6 7)+
qed

text \<open>
  C8 on the concrete inputs: once with a service that accepts the update, once with one that
  rejects it (request number 7), where the result still reports success and the disposition is
  \<open>failed_to_complete\<close>.
\<close>

lemma markOutcome_env0:
  "markOutcome (env0 compare failing) (js ''t1'') (6, log6) status further \<Longrightarrow>
   6 \<notin> set failing \<Longrightarrow>
   status = (if 7 \<in> set failing then js ''failed_to_complete'' else js ''completed'')"
  by (auto simp: markOutcome_def fetch_def issue_def responseText_def env0_def text_simps
      split: if_splits)

theorem C8_mark_source_complete_witness:
  "cp_markPlannerComplete params0
   \<and> prepare (env0 ordinalCompare [7]) params0 (0, []) = (Inr cv0, (3, log3))
   \<and> getProp (tr_payload (fst (convertPlannerTaskToTodo (env0 ordinalCompare [7]) params0 (0, []))))
         (js ''success'') = Some (JBool True)
   \<and> getProp (tr_payload (fst (convertPlannerTaskToTodo (env0 ordinalCompare [7]) params0 (0, []))))
         (js ''plannerTask'') =
       Some (JObj [(js ''id'', JStr (js ''t1'')), (js ''title'', JStr (js ''Order parts'')),
                   (js ''status'', JStr (js ''failed_to_complete''))])
   \<and> getProp (tr_payload (fst (convertPlannerTaskToTodo (env0 ordinalCompare []) params0 (0, []))))
         (js ''plannerTask'') =
       Some (JObj [(js ''id'', JStr (js ''t1'')), (js ''title'', JStr (js ''Order parts'')),
                   (js ''status'', JStr (js ''completed''))])"
proof -
  have m: "cp_markPlannerComplete params0" and i: "cp_plannerTaskId params0 = js ''t1''"
    by (simp_all add: params0_def)
  have p1: "prepare (env0 ordinalCompare [7]) params0 (0, []) = (Inr cv0, (3, log3))"
    and p2: "prepare (env0 ordinalCompare []) params0 (0, []) = (Inr cv0, (3, log3))"
    by (rule prepare0; simp)+
  have h1: "convertPlannerTaskToTodo (env0 ordinalCompare [7]) params0 (0, []) =
      (fst (convertPlannerTaskToTodo (env0 ordinalCompare [7]) params0 (0, [])),
       snd (convertPlannerTaskToTodo (env0 ordinalCompare [7]) params0 (0, [])))"
    and h2: "convertPlannerTaskToTodo (env0 ordinalCompare []) params0 (0, []) =
      (fst (convertPlannerTaskToTodo (env0 ordinalCompare []) params0 (0, [])),
       snd (convertPlannerTaskToTodo (env0 ordinalCompare []) params0 (0, [])))"
    by simp_all
  have t: "pt_id task0 = js ''t1''" "pt_title task0 = js ''Order parts''"
    by (simp_all add: task0_def)
  from C8_mark_source_complete [OF m p1 checklistStage0 h1, where etag = JNull and data = JNull]
  have a: "getProp (tr_payload (fst (convertPlannerTaskToTodo (env0 ordinalCompare [7]) params0 (0, []))))
         (js ''success'') = Some (JBool True)"
    and b: "getProp (tr_payload (fst (convertPlannerTaskToTodo (env0 ordinalCompare [7]) params0 (0, []))))
         (js ''plannerTask'') =
       Some (JObj [(js ''id'', JStr (js ''t1'')), (js ''title'', JStr (js ''Order parts'')),
                   (js ''status'', JStr (js ''failed_to_complete''))])"
    by (auto simp: i cv0_simps t dest!: markOutcome_env0)
  from C8_mark_source_complete [OF m p2 checklistStage0 h2, where etag = JNull and data = JNull]
  have c: "getProp (tr_payload (fst (convertPlannerTaskToTodo (env0 ordinalCompare []) params0 (0, []))))
         (js ''plannerTask'') =
       Some (JObj [(js ''id'', JStr (js ''t1'')), (js ''title'', JStr (js ''Order parts'')),
                   (js ''status'', JStr (js ''completed''))])"
    by (auto simp: i cv0_simps t dest!: markOutcome_env0)
  from m p1 a b c show ?thesis
    by (intro conjI)
qed

section \<open>The substitutions of the client generator\<close>

lemma replace_no_match: "search r s = None \<Longrightarrow> replace r f s = s"
  by (simp add: replace_def)

lemma replace_all_no_match: "search r s = None \<Longrightarrow> replace_all r f s = s"
  by (simp add: replace_all.simps [of r f s])

lemma generateMcpTools_succeeds:
  assumes "ensureDir node outputDir fs = (Inr (), fs0)"
    and "execSync node (generatorCommand node outputDir) fs0 = (Inr (), fs1)"
    and "readFileSync node (clientFilePath node outputDir) fs1 = Inr clientCode"
    and "writeFileSync node (clientFilePath node outputDir) (postProcess clientCode) fs1 = (Inr (), fs2)"
  shows "generateMcpTools node openApiSpec outputDir fs = (Inr True, fs2)"
  using assms by (simp add: generateMcpTools_def)

text \<open>
  C9. For every text, each substitution of the generator whose pattern finds no match in the
  text it is applied to returns that text as it is: the import redirect, the relaxation of
  either schema, and the stripping of the errors arrays; a text in which none of the four
  patterns matches passes through the whole pass unchanged. The pass has no failing branch:
  whenever the directory, the generator command, the read and the write succeed,
  \<open>generateMcpTools\<close> writes the post-processed text and returns \<open>true\<close>, whichever patterns
  matched.
\<close>

theorem C9_missing_pattern_noop:
  "(search import_re text = None \<longrightarrow> redirectImport text = text)
   \<and> (search (schema_re (js ''microsoft_graph_attachment'')) text = None \<longrightarrow>
        relaxSchema (js ''microsoft_graph_attachment'') text = text)
   \<and> (search (schema_re (js ''microsoft_graph_plannerAssignments'')) text = None \<longrightarrow>
        relaxSchema (js ''microsoft_graph_plannerAssignments'') text = text)
   \<and> (search errors_re text = None \<longrightarrow> stripErrors text = text)
   \<and> (search import_re text = None \<longrightarrow>
        search (schema_re (js ''microsoft_graph_attachment'')) text = None \<longrightarrow>
        search (schema_re (js ''microsoft_graph_plannerAssignments'')) text = None \<longrightarrow>
        search errors_re text = None \<longrightarrow> postProcess text = text)
   \<and> (ensureDir node outputDir fs = (Inr (), fs0) \<longrightarrow>
        execSync node (generatorCommand node outputDir) fs0 = (Inr (), fs1) \<longrightarrow>
        readFileSync node (clientFilePath node outputDir) fs1 = Inr text \<longrightarrow>
        writeFileSync node (clientFilePath node outputDir) (postProcess text) fs1 = (Inr (), fs2) \<longrightarrow>
        generateMcpTools node openApiSpec outputDir fs = (Inr True, fs2))"
  by (simp add: redirectImport_def relaxSchema_def stripErrors_def postProcess_def
      replace_no_match replace_all_no_match generateMcpTools_succeeds)

text \<open>
  C9 on a client text in which no pattern matches, read from and written to a file system
  that holds the one file.
\<close>

lemma plainClient_no_match:
  "search import_re plainClient = None"
  "search (schema_re (js ''microsoft_graph_attachment'')) plainClient = None"
  "search (schema_re (js ''microsoft_graph_plannerAssignments'')) plainClient = None"
  "search errors_re plainClient = None"
  by (simp_all add: import_re_def schema_re_def errors_re_def plainClient_def js_def
      ends_Star_Chr_Cons ends_Star_Chr_Nil is_space_def)

theorem C9_missing_pattern_noop_witness:
  "search import_re plainClient = None
   \<and> search (schema_re (js ''microsoft_graph_attachment'')) plainClient = None
   \<and> search (schema_re (js ''microsoft_graph_plannerAssignments'')) plainClient = None
   \<and> search errors_re plainClient = None
   \<and> postProcess plainClient = plainClient
   \<and> generateMcpTools node0 () (js ''src/generated'') plainClient = (Inr True, plainClient)"
proof -
  have io: "ensureDir node0 (js ''src/generated'') plainClient = (Inr (), plainClient)"
    "execSync node0 (generatorCommand node0 (js ''src/generated'')) plainClient = (Inr (), plainClient)"
    "readFileSync node0 (clientFilePath node0 (js ''src/generated'')) plainClient = Inr plainClient"
    by (simp_all add: ensureDir_def node0_def)
  have w: "writeFileSync node0 (clientFilePath node0 (js ''src/generated'')) t plainClient = (Inr (), t)" for t
    by (simp add: node0_def)
  from C9_missing_pattern_noop [of plainClient node0 "js ''src/generated''" plainClient plainClient
      plainClient plainClient "()"]
    plainClient_no_match io w
  show ?thesis
    by simp
qed

end
